(* ===== verification/Sqmp_Prelude.thy ===== *)
theory Sqmp_Prelude
  imports Main "HOL-Library.Word"
begin

text \<open>
  Shared vocabulary of the squimpchat development: the C integer types, byte buffers with
  bounds-checked access, the undefined behaviours a C program can run into, the error monad
  that carries them, and the little-endian layout of the packed structs' integer fields.

  A memory object of the program is a list of bytes whose length is the size of the object.
  An access outside the object, through a null pointer or through a freed pointer is a value of
  type \<open>fault\<close>, so a theorem that an operation returns \<open>Inr\<close> also says that it
  stays inside its buffers.
\<close>

unbundle bit_operations_syntax

named_theorems fault_simps \<open>evaluation of the fault monad\<close>
named_theorems layout_simps \<open>offsets and lengths of packed structs\<close>

section \<open>C integers and memory objects\<close>

type_synonym u8 = "8 word"
type_synonym u16 = "16 word"
type_synonym u32 = "32 word"
type_synonym u64 = "64 word"
type_synonym bytes = "u8 list"
type_synonym addr = nat

datatype fault = OobRead | OobWrite | NullDeref | UseAfterFree | UninitRead

section \<open>The fault monad\<close>

definition bindr :: "'e + 'a \<Rightarrow> ('a \<Rightarrow> 'e + 'b) \<Rightarrow> 'e + 'b" where
  "bindr m f = (case m of Inl e \<Rightarrow> Inl e | Inr x \<Rightarrow> f x)"

lemma bindr_Inl [simp]: "bindr (Inl e) f = Inl e"
  by (simp add: bindr_def)

lemma bindr_Inr [simp]: "bindr (Inr x) f = f x"
  by (simp add: bindr_def)

lemma bindr_eq_Inr_iff [fault_simps]:
  "bindr m f = Inr y \<longleftrightarrow> (\<exists>x. m = Inr x \<and> f x = Inr y)"
  by (cases m) auto

lemma bindr_eq_Inl_iff:
  "bindr m f = Inl e \<longleftrightarrow> m = Inl e \<or> (\<exists>x. m = Inr x \<and> f x = Inl e)"
  by (cases m) auto

lemma bindr_InrE [elim]:
  assumes "bindr m f = Inr y"
  obtains x where "m = Inr x" and "f x = Inr y"
  using assms by (auto simp: bindr_eq_Inr_iff)

lemma bindr_cong [fundef_cong]:
  assumes "m = m'" and "\<And>x. m' = Inr x \<Longrightarrow> f x = f' x"
  shows "bindr m f = bindr m' f'"
  using assms by (cases m') auto

lemma bindr_assoc: "bindr (bindr m f) g = bindr m (\<lambda>x. bindr (f x) g)"
  by (cases m) auto

text \<open>A pointer is dereferenced through the heap it points into: \<open>None\<close> is \<open>NULL\<close>,
  an address outside the domain has been freed (addresses are never reused).\<close>

definition deref :: "(addr \<rightharpoonup> 'a) \<Rightarrow> addr option \<Rightarrow> fault + 'a" where
  "deref h ptr = (case ptr of None \<Rightarrow> Inl NullDeref
     | Some a \<Rightarrow> (case h a of None \<Rightarrow> Inl UseAfterFree | Some v \<Rightarrow> Inr v))"

lemma deref_simps [simp]:
  "deref h None = Inl NullDeref"
  "h a = Some v \<Longrightarrow> deref h (Some a) = Inr v"
  "h a = None \<Longrightarrow> deref h (Some a) = Inl UseAfterFree"
  by (simp_all add: deref_def)

lemma deref_eq_Inr_iff [fault_simps]:
  "deref h ptr = Inr v \<longleftrightarrow> (\<exists>a. ptr = Some a \<and> h a = Some v)"
  by (auto simp: deref_def split: option.splits)

section \<open>Bounds-checked buffer access\<close>

definition rd8 :: "bytes \<Rightarrow> nat \<Rightarrow> fault + u8" where
  "rd8 b off = (if off < length b then Inr (b ! off) else Inl OobRead)"

definition rdn :: "bytes \<Rightarrow> nat \<Rightarrow> nat \<Rightarrow> fault + bytes" where
  "rdn b off n = (if n = 0 \<or> off + n \<le> length b then Inr (take n (drop off b)) else Inl OobRead)"

text \<open>\<open>memcpy(dst, src, n)\<close> into an array object: the first \<open>length src\<close> bytes are
  replaced.\<close>

definition memcpy :: "bytes \<Rightarrow> bytes \<Rightarrow> fault + bytes" where
  "memcpy dst src =
     (if length src \<le> length dst then Inr (src @ drop (length src) dst) else Inl OobWrite)"

text \<open>\<open>memcpy(dst + off, src, n)\<close>\<close>

definition write_at :: "bytes \<Rightarrow> nat \<Rightarrow> bytes \<Rightarrow> fault + bytes" where
  "write_at dst off src =
     (if src = [] then Inr dst
      else if off + length src \<le> length dst
      then Inr (take off dst @ src @ drop (off + length src) dst) else Inl OobWrite)"

text \<open>\<open>memcmp(a, b, n) == 0\<close>\<close>

definition memcmp_eq :: "bytes \<Rightarrow> bytes \<Rightarrow> nat \<Rightarrow> fault + bool" where
  "memcmp_eq a b n =
     (if n \<le> length a \<and> n \<le> length b then Inr (take n a = take n b) else Inl OobRead)"

definition zeros :: "nat \<Rightarrow> bytes" where
  "zeros n = replicate n 0"

lemma length_zeros [simp, layout_simps]: "length (zeros n) = n"
  by (simp add: zeros_def)

lemma rd8_Inr: "off < length b \<Longrightarrow> rd8 b off = Inr (b ! off)"
  by (simp add: rd8_def)

lemma rd8_oob: "length b \<le> off \<Longrightarrow> rd8 b off = Inl OobRead"
  by (simp add: rd8_def)

lemma rdn_Inr:
  "off + n \<le> length b \<Longrightarrow> rdn b off n = Inr (take n (drop off b))"
  by (simp add: rdn_def)

lemma rdn_oob:
  "0 < n \<Longrightarrow> length b < off + n \<Longrightarrow> rdn b off n = Inl OobRead"
  by (simp add: rdn_def)

lemma length_rdn: "rdn b off n = Inr x \<Longrightarrow> length x = n"
  by (auto simp: rdn_def split: if_splits)

lemma memcpy_Inr [simp]:
  "length src \<le> length dst \<Longrightarrow> memcpy dst src = Inr (src @ drop (length src) dst)"
  by (simp add: memcpy_def)

lemma memcpy_oob [simp]: "length dst < length src \<Longrightarrow> memcpy dst src = Inl OobWrite"
  by (simp add: memcpy_def)

lemma length_memcpy: "memcpy dst src = Inr x \<Longrightarrow> length x = length dst"
  by (auto simp: memcpy_def split: if_splits)

lemma take_memcpy: "memcpy dst src = Inr x \<Longrightarrow> take (length src) x = src"
  by (auto simp: memcpy_def split: if_splits)

lemma write_at_append:
  "length p = off \<Longrightarrow> length src \<le> length r \<Longrightarrow> write_at (p @ r) off src = Inr (p @ src @ drop (length src) r)"
  by (auto simp: write_at_def)

lemma memcmp_eq_Inr [simp]:
  "n \<le> length a \<Longrightarrow> n \<le> length b \<Longrightarrow> memcmp_eq a b n = Inr (take n a = take n b)"
  by (simp add: memcmp_eq_def)

section \<open>Little-endian integer fields\<close>

text \<open>The structs are sent as they lie in memory, on x86-64: multi-byte fields are little-endian.\<close>

definition le16 :: "u16 \<Rightarrow> bytes" where
  "le16 w = [ucast w, ucast (drop_bit 8 w)]"

definition le32 :: "u32 \<Rightarrow> bytes" where
  "le32 w = [ucast w, ucast (drop_bit 8 w), ucast (drop_bit 16 w), ucast (drop_bit 24 w)]"

definition of_le16 :: "bytes \<Rightarrow> u16" where
  "of_le16 b = (case b of [x, y] \<Rightarrow> ucast x OR push_bit 8 (ucast y) | _ \<Rightarrow> 0)"

definition of_le32 :: "bytes \<Rightarrow> u32" where
  "of_le32 b = (case b of [x, y, z, w] \<Rightarrow>
       ucast x OR push_bit 8 (ucast y) OR push_bit 16 (ucast z) OR push_bit 24 (ucast w) | _ \<Rightarrow> 0)"

definition rd16 :: "bytes \<Rightarrow> nat \<Rightarrow> fault + u16" where
  "rd16 b off = bindr (rdn b off 2) (\<lambda>x. Inr (of_le16 x))"

definition rd32 :: "bytes \<Rightarrow> nat \<Rightarrow> fault + u32" where
  "rd32 b off = bindr (rdn b off 4) (\<lambda>x. Inr (of_le32 x))"

lemma length_le [simp, layout_simps]: "length (le16 w) = 2" "length (le32 v) = 4"
  by (simp_all add: le16_def le32_def)

lemma of_le16_le16 [simp]: "of_le16 (le16 w) = w"
  unfolding of_le16_def le16_def list.case
  by (rule bit_word_eqI) (auto simp: bit_simps)

lemma of_le32_le32 [simp]: "of_le32 (le32 w) = w"
  unfolding of_le32_def le32_def list.case
proof (rule bit_word_eqI)
  fix n assume n: "n < LENGTH(32)"
  consider "n < 8" | "8 \<le> n" "n < 16" | "16 \<le> n" "n < 24" | "24 \<le> n" by linarith
  then show "bit ((ucast (ucast w :: u8) :: u32) OR push_bit 8 (ucast (ucast (drop_bit 8 w) :: u8))
      OR push_bit 16 (ucast (ucast (drop_bit 16 w) :: u8))
      OR push_bit 24 (ucast (ucast (drop_bit 24 w) :: u8))) n = bit w n"
    using n by cases (auto simp: bit_simps)
qed

section \<open>Reading from concatenated buffers\<close>

lemma rd8_append_skip [fault_simps]: "length a \<le> off \<Longrightarrow> rd8 (a @ b) off = rd8 b (off - length a)"
  by (auto simp: rd8_def nth_append)

lemma rd8_append_here [fault_simps]: "off < length a \<Longrightarrow> rd8 (a @ b) off = Inr (a ! off)"
  by (auto simp: rd8_def nth_append)

lemma rd8_Cons [fault_simps]: "rd8 (x # b) off = (if off = 0 then Inr x else rd8 b (off - 1))"
  by (cases off) (auto simp: rd8_def)

lemma rdn_append_skip [fault_simps]:
  "length a \<le> off \<Longrightarrow> rdn (a @ b) off n = rdn b (off - length a) n"
  by (auto simp: rdn_def)

lemma rdn_append_here [fault_simps]: "n \<le> length a \<Longrightarrow> rdn (a @ b) 0 n = Inr (take n a)"
  by (auto simp: rdn_def)

lemma rdn_all [fault_simps]: "n = length a \<Longrightarrow> rdn a 0 n = Inr a"
  by (auto simp: rdn_def)

lemma rdn_Cons_skip [fault_simps]: "0 < off \<Longrightarrow> rdn (x # b) off n = rdn b (off - 1) n"
  by (cases off) (auto simp: rdn_def)

lemma rd8_extend: "rd8 b off = Inr x \<Longrightarrow> rd8 (b @ c) off = Inr x"
  by (auto simp: rd8_def nth_append split: if_splits)

lemma rdn_extend: "rdn b off n = Inr x \<Longrightarrow> rdn (b @ c) off n = Inr x"
  by (cases "n = 0") (auto simp: rdn_def split: if_splits)

lemma rd16_extend: "rd16 b off = Inr x \<Longrightarrow> rd16 (b @ c) off = Inr x"
  by (auto simp: rd16_def bindr_eq_Inr_iff dest: rdn_extend)

lemma rd32_extend: "rd32 b off = Inr x \<Longrightarrow> rd32 (b @ c) off = Inr x"
  by (auto simp: rd32_def bindr_eq_Inr_iff dest: rdn_extend)

lemmas rd_extend = rd8_extend rdn_extend rd16_extend rd32_extend

lemma rd16_Inr:
  "off + 2 \<le> length b \<Longrightarrow> rd16 b off = Inr (of_le16 (take 2 (drop off b)))"
  by (simp add: rd16_def rdn_def)

lemma rd32_Inr:
  "off + 4 \<le> length b \<Longrightarrow> rd32 b off = Inr (of_le32 (take 4 (drop off b)))"
  by (simp add: rd32_def rdn_def)

lemma rd16_oob: "length b < off + 2 \<Longrightarrow> rd16 b off = Inl OobRead"
  by (simp add: rd16_def rdn_def)

lemma rd32_oob: "length b < off + 4 \<Longrightarrow> rd32 b off = Inl OobRead"
  by (simp add: rd32_def rdn_def)

lemmas rd_in_bounds = rd8_Inr rdn_Inr rd16_Inr rd32_Inr
lemmas rd_oob = rd8_oob rdn_oob rd16_oob rd32_oob

section \<open>C strings\<close>

text \<open>String literals are byte lists; \<open>cstr\<close> is the C string at the start of a buffer.\<close>

definition ascii :: "string \<Rightarrow> bytes" where
  "ascii s = map of_char s"

definition cstr :: "bytes \<Rightarrow> bytes" where
  "cstr b = takeWhile (\<lambda>c. c \<noteq> 0) b"

lemma length_ascii [simp]: "length (ascii s) = length s"
  by (simp add: ascii_def)

lemma cstr_prefix: "cstr (s @ 0 # r) = cstr s"
  unfolding cstr_def by (induction s) simp_all

lemma cstr_append_nul: "0 \<notin> set s \<Longrightarrow> cstr (s @ 0 # r) = s"
  by (auto simp: cstr_def takeWhile_append)

lemma cstr_id [simp]: "0 \<notin> set s \<Longrightarrow> cstr s = s"
  unfolding cstr_def by (rule takeWhile_eq_all_conv [THEN iffD2]) auto

lemma zero_notin_cstr [simp]: "0 \<notin> set (cstr b)"
  by (auto simp: cstr_def dest: set_takeWhileD)

end
