(* ===== verification/Sqmp_Wire.thy ===== *)
theory Sqmp_Wire
  imports Sqmp_Prelude
begin

text \<open>
  The packet formats of \<^verbatim>\<open>include/sqmp.h\<close>: the enumerations with their wire codes, one record per
  packed struct, the byte image of each struct (fields in declaration order, no padding) and the
  reads the handlers make through a struct pointer laid over a received buffer. The round-trip
  theorems show that every read at its offset gives back the field the sender stored.
\<close>

section \<open>Constants and enumerations\<close>

definition SQMP_USERNAME_MAX_LEN :: nat where
  "SQMP_USERNAME_MAX_LEN = 32"

definition SQMP_PASSWORD_HASH_LEN :: nat where
  "SQMP_PASSWORD_HASH_LEN = 32"

definition SQMP_ERROR_DESC_MAX_LEN :: nat where
  "SQMP_ERROR_DESC_MAX_LEN = 128"

definition SQMP_REGISTRY_MAX :: nat where
  "SQMP_REGISTRY_MAX = 64"

definition SQMP_PKT_FIXED_LEN :: nat where
  "SQMP_PKT_FIXED_LEN = 12"

lemmas sqmp_consts [simp] =
  SQMP_USERNAME_MAX_LEN_def SQMP_PASSWORD_HASH_LEN_def SQMP_ERROR_DESC_MAX_LEN_def
  SQMP_REGISTRY_MAX_def SQMP_PKT_FIXED_LEN_def

datatype sqmp_session_state =
    SQMP_SESSION_STATE_CLOSED
  | SQMP_SESSION_STATE_HELLO
  | SQMP_SESSION_STATE_AUTH
  | SQMP_SESSION_STATE_CONN_ESTABLISHED
  | SQMP_SESSION_STATE_CLOSING

primrec session_state_code :: "sqmp_session_state \<Rightarrow> u8" where
  "session_state_code SQMP_SESSION_STATE_CLOSED = 0"
| "session_state_code SQMP_SESSION_STATE_HELLO = 1"
| "session_state_code SQMP_SESSION_STATE_AUTH = 2"
| "session_state_code SQMP_SESSION_STATE_CONN_ESTABLISHED = 3"
| "session_state_code SQMP_SESSION_STATE_CLOSING = 4"

text \<open>The README gives the order of the states of a session; this is the order a session moves in.\<close>

primrec session_phase :: "sqmp_session_state \<Rightarrow> nat" where
  "session_phase SQMP_SESSION_STATE_HELLO = 0"
| "session_phase SQMP_SESSION_STATE_AUTH = 1"
| "session_phase SQMP_SESSION_STATE_CONN_ESTABLISHED = 2"
| "session_phase SQMP_SESSION_STATE_CLOSING = 3"
| "session_phase SQMP_SESSION_STATE_CLOSED = 4"

lemma session_phase_inj: "session_phase a = session_phase b \<longleftrightarrow> a = b"
  by (cases a; cases b) simp_all

instantiation sqmp_session_state :: linorder
begin

definition less_eq_sqmp_session_state :: "sqmp_session_state \<Rightarrow> sqmp_session_state \<Rightarrow> bool" where
  "less_eq_sqmp_session_state a b \<longleftrightarrow> session_phase a \<le> session_phase b"

definition less_sqmp_session_state :: "sqmp_session_state \<Rightarrow> sqmp_session_state \<Rightarrow> bool" where
  "less_sqmp_session_state a b \<longleftrightarrow> session_phase a < session_phase b"

instance
  by standard (auto simp: less_eq_sqmp_session_state_def less_sqmp_session_state_def session_phase_inj)

end

lemmas session_state_order = less_eq_sqmp_session_state_def less_sqmp_session_state_def

datatype sqmp_msg_type =
    SQMP_MSG_TYPE_HELLO | SQMP_MSG_TYPE_HELLO_ACK | SQMP_MSG_TYPE_AUTH_REQ
  | SQMP_MSG_TYPE_AUTH_RESP | SQMP_MSG_TYPE_KEY_REQ | SQMP_MSG_TYPE_KEY_RESP
  | SQMP_MSG_TYPE_ERROR | SQMP_MSG_TYPE_BYE | SQMP_MSG_TYPE_CHAT_SEND
  | SQMP_MSG_TYPE_CHAT_DELIVER | SQMP_MSG_TYPE_CHAT_ACK

primrec msg_code :: "sqmp_msg_type \<Rightarrow> u8" where
  "msg_code SQMP_MSG_TYPE_HELLO = 0x01"
| "msg_code SQMP_MSG_TYPE_HELLO_ACK = 0x02"
| "msg_code SQMP_MSG_TYPE_AUTH_REQ = 0x03"
| "msg_code SQMP_MSG_TYPE_AUTH_RESP = 0x04"
| "msg_code SQMP_MSG_TYPE_KEY_REQ = 0x05"
| "msg_code SQMP_MSG_TYPE_KEY_RESP = 0x06"
| "msg_code SQMP_MSG_TYPE_ERROR = 0x07"
| "msg_code SQMP_MSG_TYPE_BYE = 0x08"
| "msg_code SQMP_MSG_TYPE_CHAT_SEND = 0x10"
| "msg_code SQMP_MSG_TYPE_CHAT_DELIVER = 0x11"
| "msg_code SQMP_MSG_TYPE_CHAT_ACK = 0x12"

datatype sqmp_error_code =
    SQMP_ERROR_CODE_GENERAL | SQMP_ERROR_CODE_USER_NOT_FOUND | SQMP_ERROR_CODE_COULD_NOT_SEND
  | SQMP_ERROR_CODE_VERSION_MISMATCH | SQMP_ERROR_CODE_UNEXPECTED_MSG

primrec error_code :: "sqmp_error_code \<Rightarrow> u8" where
  "error_code SQMP_ERROR_CODE_GENERAL = 0x00"
| "error_code SQMP_ERROR_CODE_USER_NOT_FOUND = 0x01"
| "error_code SQMP_ERROR_CODE_COULD_NOT_SEND = 0x02"
| "error_code SQMP_ERROR_CODE_VERSION_MISMATCH = 0x03"
| "error_code SQMP_ERROR_CODE_UNEXPECTED_MSG = 0x04"

datatype sqmp_auth_status = SQMP_AUTH_STATUS_OK | SQMP_AUTH_STATUS_INVALID

primrec auth_status_code :: "sqmp_auth_status \<Rightarrow> u8" where
  "auth_status_code SQMP_AUTH_STATUS_OK = 0x00"
| "auth_status_code SQMP_AUTH_STATUS_INVALID = 0x01"

section \<open>Packed structs and their byte images\<close>

record sqmp_pkt =
  pkt_version :: u8
  pkt_msg_type :: u8
  pkt_flags :: u8
  pkt_session_id :: u32
  pkt_reserved :: bytes

record sqmp_msg_hello =
  hello_num_versions :: u8
  hello_versions :: bytes
  hello_selected_version :: u8
  hello_max_message_size :: u32
  hello_reserved :: bytes

record sqmp_msg_hello_ack =
  hello_ack_selected_version :: u8
  hello_ack_max_message_size :: u32
  hello_ack_reserved :: bytes

record sqmp_msg_auth_req =
  auth_req_username_len :: u8
  auth_req_username :: bytes
  auth_req_password_hash :: bytes
  auth_req_pubkey_len :: u16
  auth_req_public_key :: bytes

record sqmp_msg_auth_resp =
  auth_resp_status :: u8
  auth_resp_session_id :: u32
  auth_resp_reserved :: bytes

record sqmp_msg_key_req =
  key_req_username_len :: u8
  key_req_username :: bytes

record sqmp_msg_key_resp =
  key_resp_username_len :: u8
  key_resp_username :: bytes
  key_resp_pubkey_len :: u16
  key_resp_public_key :: bytes

record sqmp_msg_error =
  error_error_code :: u8
  error_desc_len :: u8
  error_description :: bytes

text \<open>\<^verbatim>\<open>sqmp_msg_chat_send_t\<close> and \<^verbatim>\<open>sqmp_msg_chat_deliver_t\<close> have the same layout; the name is the
  recipient in the first and the sender in the second.\<close>

record sqmp_msg_chat =
  chat_name_len :: u8
  chat_name :: bytes
  chat_enc_key_len :: u16
  chat_encrypted_key :: bytes
  chat_nonce :: bytes
  chat_ciphertext_len :: u32
  chat_ciphertext :: bytes

definition enc_pkt :: "sqmp_pkt \<Rightarrow> bytes" where
  "enc_pkt h = [pkt_version h, pkt_msg_type h, pkt_flags h] @ le32 (pkt_session_id h) @ pkt_reserved h"

definition enc_hello :: "sqmp_msg_hello \<Rightarrow> bytes" where
  "enc_hello m = [hello_num_versions m] @ hello_versions m @ [hello_selected_version m]
     @ le32 (hello_max_message_size m) @ hello_reserved m"

definition enc_hello_ack :: "sqmp_msg_hello_ack \<Rightarrow> bytes" where
  "enc_hello_ack m = [hello_ack_selected_version m] @ le32 (hello_ack_max_message_size m)
     @ hello_ack_reserved m"

definition enc_auth_req :: "sqmp_msg_auth_req \<Rightarrow> bytes" where
  "enc_auth_req m = [auth_req_username_len m] @ auth_req_username m @ auth_req_password_hash m
     @ le16 (auth_req_pubkey_len m) @ auth_req_public_key m"

definition enc_auth_resp :: "sqmp_msg_auth_resp \<Rightarrow> bytes" where
  "enc_auth_resp m = [auth_resp_status m] @ le32 (auth_resp_session_id m) @ auth_resp_reserved m"

definition enc_key_req :: "sqmp_msg_key_req \<Rightarrow> bytes" where
  "enc_key_req m = [key_req_username_len m] @ key_req_username m"

definition enc_key_resp :: "sqmp_msg_key_resp \<Rightarrow> bytes" where
  "enc_key_resp m = [key_resp_username_len m] @ key_resp_username m
     @ le16 (key_resp_pubkey_len m) @ key_resp_public_key m"

definition enc_error :: "sqmp_msg_error \<Rightarrow> bytes" where
  "enc_error m = [error_error_code m, error_desc_len m] @ error_description m"

definition enc_chat :: "sqmp_msg_chat \<Rightarrow> bytes" where
  "enc_chat m = [chat_name_len m] @ chat_name m @ le16 (chat_enc_key_len m)
     @ chat_encrypted_key m @ chat_nonce m @ le32 (chat_ciphertext_len m) @ chat_ciphertext m"

lemmas enc_defs = enc_pkt_def enc_hello_def enc_hello_ack_def enc_auth_req_def enc_auth_resp_def
  enc_key_req_def enc_key_resp_def enc_error_def enc_chat_def

text \<open>A struct value fits its declaration: every array member has its declared length.\<close>

definition wf_pkt :: "sqmp_pkt \<Rightarrow> bool" where
  "wf_pkt h \<longleftrightarrow> length (pkt_reserved h) = 5"

definition wf_hello :: "sqmp_msg_hello \<Rightarrow> bool" where
  "wf_hello m \<longleftrightarrow> length (hello_versions m) = 8 \<and> length (hello_reserved m) = 2"

definition wf_auth_req :: "sqmp_msg_auth_req \<Rightarrow> bool" where
  "wf_auth_req m \<longleftrightarrow> length (auth_req_username m) = 32 \<and> length (auth_req_password_hash m) = 32"

definition wf_key_req :: "sqmp_msg_key_req \<Rightarrow> bool" where
  "wf_key_req m \<longleftrightarrow> length (key_req_username m) = 32"

definition wf_key_resp :: "sqmp_msg_key_resp \<Rightarrow> bool" where
  "wf_key_resp m \<longleftrightarrow> length (key_resp_username m) = 32"

definition wf_error :: "sqmp_msg_error \<Rightarrow> bool" where
  "wf_error m \<longleftrightarrow> length (error_description m) = 128"

definition wf_chat :: "sqmp_msg_chat \<Rightarrow> bool" where
  "wf_chat m \<longleftrightarrow> length (chat_name m) = 32 \<and> length (chat_encrypted_key m) = 256
     \<and> length (chat_nonce m) = 12"

lemmas wf_defs = wf_pkt_def wf_hello_def wf_auth_req_def wf_key_req_def wf_key_resp_def
  wf_error_def wf_chat_def

lemma length_enc_pkt [layout_simps]: "wf_pkt h \<Longrightarrow> length (enc_pkt h) = SQMP_PKT_FIXED_LEN"
  by (simp add: enc_pkt_def wf_pkt_def)

section \<open>Reads through a struct pointer\<close>

text \<open>\<open>d\<close> is the whole received buffer, header included: the message starts at offset 12.\<close>

definition get_msg_type :: "bytes \<Rightarrow> fault + u8" where
  "get_msg_type d = rd8 d 1"

definition get_session_id :: "bytes \<Rightarrow> fault + u32" where
  "get_session_id d = rd32 d 3"

definition get_hello_num_versions :: "bytes \<Rightarrow> fault + u8" where
  "get_hello_num_versions d = rd8 d 12"

definition get_hello_version :: "bytes \<Rightarrow> nat \<Rightarrow> fault + u8" where
  "get_hello_version d i = rd8 d (13 + i)"

definition get_hello_ack_selected_version :: "bytes \<Rightarrow> fault + u8" where
  "get_hello_ack_selected_version d = rd8 d 12"

definition get_auth_req_username_len :: "bytes \<Rightarrow> fault + u8" where
  "get_auth_req_username_len d = rd8 d 12"

definition get_auth_req_username :: "bytes \<Rightarrow> nat \<Rightarrow> fault + bytes" where
  "get_auth_req_username d n = rdn d 13 n"

definition get_auth_req_password_hash :: "bytes \<Rightarrow> fault + bytes" where
  "get_auth_req_password_hash d = rdn d 45 SQMP_PASSWORD_HASH_LEN"

definition get_auth_req_pubkey_len :: "bytes \<Rightarrow> fault + u16" where
  "get_auth_req_pubkey_len d = rd16 d 77"

definition get_auth_req_public_key :: "bytes \<Rightarrow> fault + bytes" where
  "get_auth_req_public_key d = rdn d 79 32"

definition get_auth_resp_status :: "bytes \<Rightarrow> fault + u8" where
  "get_auth_resp_status d = rd8 d 12"

definition get_auth_resp_session_id :: "bytes \<Rightarrow> fault + u32" where
  "get_auth_resp_session_id d = rd32 d 13"

definition get_key_username_len :: "bytes \<Rightarrow> fault + u8" where
  "get_key_username_len d = rd8 d 12"

definition get_key_username :: "bytes \<Rightarrow> nat \<Rightarrow> fault + bytes" where
  "get_key_username d n = rdn d 13 n"

definition get_key_resp_pubkey_len :: "bytes \<Rightarrow> fault + u16" where
  "get_key_resp_pubkey_len d = rd16 d 45"

definition get_key_resp_public_key :: "bytes \<Rightarrow> fault + bytes" where
  "get_key_resp_public_key d = rdn d 47 32"

definition get_error_code :: "bytes \<Rightarrow> fault + u8" where
  "get_error_code d = rd8 d 12"

definition get_error_desc_len :: "bytes \<Rightarrow> fault + u8" where
  "get_error_desc_len d = rd8 d 13"

definition get_chat_name_len :: "bytes \<Rightarrow> fault + u8" where
  "get_chat_name_len d = rd8 d 12"

definition get_chat_name :: "bytes \<Rightarrow> nat \<Rightarrow> fault + bytes" where
  "get_chat_name d n = rdn d 13 n"

definition get_chat_enc_key_len :: "bytes \<Rightarrow> fault + u16" where
  "get_chat_enc_key_len d = rd16 d 45"

definition get_chat_encrypted_key :: "bytes \<Rightarrow> nat \<Rightarrow> fault + bytes" where
  "get_chat_encrypted_key d n = rdn d 47 n"

definition get_chat_nonce :: "bytes \<Rightarrow> fault + bytes" where
  "get_chat_nonce d = rdn d 303 12"

definition get_chat_ciphertext_len :: "bytes \<Rightarrow> fault + u32" where
  "get_chat_ciphertext_len d = rd32 d 315"

definition get_chat_ciphertext :: "bytes \<Rightarrow> nat \<Rightarrow> fault + bytes" where
  "get_chat_ciphertext d n = rdn d 319 n"

lemmas get_defs = get_msg_type_def get_session_id_def get_hello_num_versions_def
  get_hello_version_def get_hello_ack_selected_version_def get_auth_req_username_len_def
  get_auth_req_username_def get_auth_req_password_hash_def get_auth_req_pubkey_len_def
  get_auth_req_public_key_def get_auth_resp_status_def get_auth_resp_session_id_def
  get_key_username_len_def get_key_username_def get_key_resp_pubkey_len_def
  get_key_resp_public_key_def get_error_code_def get_error_desc_len_def
  get_chat_name_len_def get_chat_name_def get_chat_enc_key_len_def get_chat_encrypted_key_def
  get_chat_nonce_def get_chat_ciphertext_len_def get_chat_ciphertext_def

section \<open>Round trips\<close>

text \<open>Each lemma reads the fields of a message back from the packet that holds it, whatever
  follows the packet in the buffer (the flattened receive buffer ends with an extra \<^verbatim>\<open>NUL\<close>).\<close>

named_theorems wire_reads \<open>reads of a field from the byte image of its struct\<close>

lemma pkt_reads [wire_reads]:
  assumes "wf_pkt h"
  shows "get_msg_type (enc_pkt h @ r) = Inr (pkt_msg_type h)"
    and "get_session_id (enc_pkt h @ r) = Inr (pkt_session_id h)"
  using assms by (simp_all add: get_defs enc_pkt_def wf_pkt_def fault_simps rd32_def)

lemma rd_skip_pkt [wire_reads]:
  assumes "wf_pkt h" and "12 \<le> off"
  shows "rd8 (enc_pkt h @ r) off = rd8 r (off - 12)"
    and "rdn (enc_pkt h @ r) off n = rdn r (off - 12) n"
    and "rd16 (enc_pkt h @ r) off = rd16 r (off - 12)"
    and "rd32 (enc_pkt h @ r) off = rd32 r (off - 12)"
  using assms length_enc_pkt [OF assms(1)]
  by (simp_all add: rd8_append_skip rdn_append_skip rd16_def rd32_def)

lemma hello_reads [wire_reads]:
  assumes "wf_pkt h" and "wf_hello m"
  shows "get_hello_num_versions (enc_pkt h @ enc_hello m @ r) = Inr (hello_num_versions m)"
    and "i < 8 \<Longrightarrow> get_hello_version (enc_pkt h @ enc_hello m @ r) i = Inr (hello_versions m ! i)"
  using assms
  by (simp_all add: get_defs rd_skip_pkt enc_hello_def wf_hello_def rd8_append_here rd8_Cons)

lemma hello_ack_reads [wire_reads]:
  assumes "wf_pkt h"
  shows "get_hello_ack_selected_version (enc_pkt h @ enc_hello_ack m @ r)
           = Inr (hello_ack_selected_version m)"
  using assms by (simp add: get_defs rd_skip_pkt enc_hello_ack_def rd8_Cons)

lemma auth_req_reads [wire_reads]:
  fixes r
  assumes "wf_pkt h" and "wf_auth_req m"
  defines "d \<equiv> enc_pkt h @ enc_auth_req m @ r"
  shows "get_auth_req_username_len d = Inr (auth_req_username_len m)"
    and "n \<le> 32 \<Longrightarrow> get_auth_req_username d n = Inr (take n (auth_req_username m))"
    and "get_auth_req_password_hash d = Inr (auth_req_password_hash m)"
    and "get_auth_req_pubkey_len d = Inr (auth_req_pubkey_len m)"
    and "length (auth_req_public_key m) = 32 \<Longrightarrow> get_auth_req_public_key d = Inr (auth_req_public_key m)"
  using assms
  by (simp_all add: get_defs rd_skip_pkt enc_auth_req_def wf_auth_req_def rd16_def
      rd8_Cons rdn_Cons_skip rdn_append_skip rdn_append_here)

lemma auth_resp_reads [wire_reads]:
  assumes "wf_pkt h"
  shows "get_auth_resp_status (enc_pkt h @ enc_auth_resp m @ r) = Inr (auth_resp_status m)"
    and "get_auth_resp_session_id (enc_pkt h @ enc_auth_resp m @ r) = Inr (auth_resp_session_id m)"
  using assms
  by (simp_all add: get_defs rd_skip_pkt enc_auth_resp_def rd32_def rd8_Cons rdn_Cons_skip rdn_append_here)

lemma key_req_reads [wire_reads]:
  assumes "wf_pkt h" and "wf_key_req m"
  shows "get_key_username_len (enc_pkt h @ enc_key_req m @ r) = Inr (key_req_username_len m)"
    and "n \<le> 32 \<Longrightarrow> get_key_username (enc_pkt h @ enc_key_req m @ r) n = Inr (take n (key_req_username m))"
  using assms
  by (simp_all add: get_defs rd_skip_pkt enc_key_req_def wf_key_req_def rd8_Cons rdn_Cons_skip rdn_append_here)

lemma key_resp_reads [wire_reads]:
  fixes r
  assumes "wf_pkt h" and "wf_key_resp m"
  defines "d \<equiv> enc_pkt h @ enc_key_resp m @ r"
  shows "get_key_username_len d = Inr (key_resp_username_len m)"
    and "n \<le> 32 \<Longrightarrow> get_key_username d n = Inr (take n (key_resp_username m))"
    and "get_key_resp_pubkey_len d = Inr (key_resp_pubkey_len m)"
    and "length (key_resp_public_key m) = 32 \<Longrightarrow> get_key_resp_public_key d = Inr (key_resp_public_key m)"
  using assms
  by (simp_all add: get_defs rd_skip_pkt enc_key_resp_def wf_key_resp_def rd16_def
      rd8_Cons rdn_Cons_skip rdn_append_skip rdn_append_here)

lemma error_reads [wire_reads]:
  assumes "wf_pkt h"
  shows "get_error_code (enc_pkt h @ enc_error m @ r) = Inr (error_error_code m)"
    and "get_error_desc_len (enc_pkt h @ enc_error m @ r) = Inr (error_desc_len m)"
  using assms by (simp_all add: get_defs rd_skip_pkt enc_error_def rd8_Cons)

lemma chat_reads [wire_reads]:
  fixes r
  assumes "wf_pkt h" and "wf_chat m"
  defines "d \<equiv> enc_pkt h @ enc_chat m @ r"
  shows "get_chat_name_len d = Inr (chat_name_len m)"
    and "n \<le> 32 \<Longrightarrow> get_chat_name d n = Inr (take n (chat_name m))"
    and "get_chat_enc_key_len d = Inr (chat_enc_key_len m)"
    and "n \<le> 256 \<Longrightarrow> get_chat_encrypted_key d n = Inr (take n (chat_encrypted_key m))"
    and "get_chat_nonce d = Inr (chat_nonce m)"
    and "get_chat_ciphertext_len d = Inr (chat_ciphertext_len m)"
    and "n \<le> length (chat_ciphertext m) \<Longrightarrow> get_chat_ciphertext d n = Inr (take n (chat_ciphertext m))"
  using assms
  by (simp_all add: get_defs rd_skip_pkt enc_chat_def wf_chat_def rd16_def rd32_def
      rd8_Cons rdn_Cons_skip rdn_append_skip rdn_append_here)

lemma msg_code_inj [simp]: "msg_code a = msg_code b \<longleftrightarrow> a = b"
  by (cases a; cases b) simp_all

end
