(* ===== verification/Sqmp_Registry.thy ===== *)
theory Sqmp_Registry
  imports Sqmp_Wire
begin

text \<open>
  The connected-user registry of \<^verbatim>\<open>src/shared/sqmp.c\<close>: a static array of 64 entries searched by
  linear loops. \<open>user_directory\<close> is the contract its clients rely on (a finite map from user
  names to a stream and a public key); the array operations are shown to implement it.
\<close>

section \<open>The array and its operations\<close>

record sqmp_registry_entry =
  re_in_use :: u8
  re_username_len :: u8
  re_username :: bytes
  re_public_key :: bytes
  re_stream :: "addr option"

type_synonym registry = "sqmp_registry_entry list"

text \<open>An entry after \<^verbatim>\<open>memset(&g_registry[i], 0, sizeof(g_registry[i]))\<close>, which is also its state
  at program start.\<close>

definition zero_entry :: sqmp_registry_entry where
  "zero_entry = \<lparr>re_in_use = 0, re_username_len = 0, re_username = zeros SQMP_USERNAME_MAX_LEN,
     re_public_key = zeros 32, re_stream = None\<rparr>"

definition g_registry_init :: registry where
  "g_registry_init = replicate SQMP_REGISTRY_MAX zero_entry"

text \<open>The comparison every loop makes: equal length, then \<^verbatim>\<open>memcmp\<close> of that many bytes. A name
  pointer is the rest of the object it points into.\<close>

definition entry_matches :: "sqmp_registry_entry \<Rightarrow> bytes \<Rightarrow> u8 \<Rightarrow> fault + bool" where
  "entry_matches e uname ulen =
     (if re_username_len e = ulen then memcmp_eq (re_username e) uname (unat ulen) else Inr False)"

text \<open>The loop of \<^verbatim>\<open>sqmp_registry_add\<close>: \<open>Inr None\<close> is the early return on a name already
  registered, \<open>Inr (Some slot)\<close> the first free slot when the loop runs to its end.\<close>

fun registry_add_loop ::
  "registry \<Rightarrow> bytes \<Rightarrow> u8 \<Rightarrow> nat \<Rightarrow> nat option \<Rightarrow> fault + nat option option" where
  "registry_add_loop [] uname ulen i slot = Inr (Some slot)"
| "registry_add_loop (e # es) uname ulen i slot =
     (if re_in_use e = 0
      then registry_add_loop es uname ulen (Suc i) (if slot = None then Some i else slot)
      else bindr (entry_matches e uname ulen) (\<lambda>m.
        if m then Inr None else registry_add_loop es uname ulen (Suc i) slot))"

definition sqmp_registry_add ::
  "registry \<Rightarrow> bytes \<Rightarrow> u8 \<Rightarrow> addr option \<Rightarrow> bytes \<Rightarrow> fault + int \<times> registry" where
  "sqmp_registry_add reg uname ulen stream pubkey =
     bindr (registry_add_loop reg uname ulen 0 None) (\<lambda>r. case r of
       None \<Rightarrow> Inr (-1, reg)
     | Some None \<Rightarrow> Inr (-1, reg)
     | Some (Some slot) \<Rightarrow>
         bindr (rdn uname 0 (unat ulen)) (\<lambda>name.
         bindr (memcpy (re_username (reg ! slot)) name) (\<lambda>username.
         bindr (rdn pubkey 0 32) (\<lambda>key.
         bindr (memcpy (re_public_key (reg ! slot)) key) (\<lambda>public_key.
           Inr (0, reg[slot := (reg ! slot)\<lparr>re_in_use := 1, re_username_len := ulen,
                  re_username := username, re_stream := stream, re_public_key := public_key\<rparr>]))))))"

text \<open>The search loop shared by \<^verbatim>\<open>sqmp_registry_remove\<close>, \<^verbatim>\<open>sqmp_registry_find\<close> and
  \<^verbatim>\<open>sqmp_registry_get_pubkey\<close>: the index at which it breaks.\<close>

fun registry_search :: "registry \<Rightarrow> bytes \<Rightarrow> u8 \<Rightarrow> nat \<Rightarrow> fault + nat option" where
  "registry_search [] uname ulen i = Inr None"
| "registry_search (e # es) uname ulen i =
     (if re_in_use e = 0 then registry_search es uname ulen (Suc i)
      else bindr (entry_matches e uname ulen) (\<lambda>m.
        if m then Inr (Some i) else registry_search es uname ulen (Suc i)))"

definition sqmp_registry_remove :: "registry \<Rightarrow> bytes \<Rightarrow> u8 \<Rightarrow> fault + registry" where
  "sqmp_registry_remove reg uname ulen =
     bindr (registry_search reg uname ulen 0) (\<lambda>r. case r of
       None \<Rightarrow> Inr reg | Some i \<Rightarrow> Inr (reg[i := zero_entry]))"

definition sqmp_registry_find :: "registry \<Rightarrow> bytes \<Rightarrow> u8 \<Rightarrow> fault + addr option" where
  "sqmp_registry_find reg uname ulen =
     bindr (registry_search reg uname ulen 0) (\<lambda>r. case r of
       None \<Rightarrow> Inr None | Some i \<Rightarrow> Inr (re_stream (reg ! i)))"

text \<open>\<open>None\<close> is the return value -1, \<open>Some key\<close> is 0 with \<open>key\<close> in \<^verbatim>\<open>pubkey_out\<close>.\<close>

definition sqmp_registry_get_pubkey :: "registry \<Rightarrow> bytes \<Rightarrow> u8 \<Rightarrow> fault + bytes option" where
  "sqmp_registry_get_pubkey reg uname ulen =
     bindr (registry_search reg uname ulen 0) (\<lambda>r. case r of
       None \<Rightarrow> Inr None
     | Some i \<Rightarrow> bindr (rdn (re_public_key (reg ! i)) 0 32) (\<lambda>key. Inr (Some key)))"

section \<open>Invariant and abstraction\<close>

definition re_name :: "sqmp_registry_entry \<Rightarrow> bytes" where
  "re_name e = take (unat (re_username_len e)) (re_username e)"

definition wf_entry :: "sqmp_registry_entry \<Rightarrow> bool" where
  "wf_entry e \<longleftrightarrow> length (re_username e) = 32 \<and> length (re_public_key e) = 32
     \<and> unat (re_username_len e) \<le> 32"

definition live_entries :: "registry \<Rightarrow> registry" where
  "live_entries reg = filter (\<lambda>e. re_in_use e \<noteq> 0) reg"

definition wf_registry :: "registry \<Rightarrow> bool" where
  "wf_registry reg \<longleftrightarrow> length reg = SQMP_REGISTRY_MAX \<and> (\<forall>e \<in> set reg. wf_entry e)
     \<and> distinct (map re_name (live_entries reg))"

definition registry_map :: "registry \<Rightarrow> bytes \<rightharpoonup> addr option \<times> bytes" where
  "registry_map reg = map_of (map (\<lambda>e. (re_name e, (re_stream e, re_public_key e))) (live_entries reg))"

definition registry_full :: "registry \<Rightarrow> bool" where
  "registry_full reg \<longleftrightarrow> (\<forall>e \<in> set reg. re_in_use e \<noteq> 0)"

lemma length_re_name: "wf_entry e \<Longrightarrow> length (re_name e) = unat (re_username_len e)"
  by (simp add: re_name_def wf_entry_def)

lemma wf_zero_entry [simp]: "wf_entry zero_entry" "re_in_use zero_entry = 0"
  by (simp_all add: wf_entry_def zero_entry_def)

lemma wf_registry_init: "wf_registry g_registry_init"
  by (simp add: wf_registry_def g_registry_init_def live_entries_def)

lemma registry_map_init: "registry_map g_registry_init = Map.empty"
  by (simp add: registry_map_def g_registry_init_def live_entries_def)

lemma not_full_init: "\<not> registry_full g_registry_init"
  by (simp add: registry_full_def g_registry_init_def zero_entry_def)

lemma live_entries_simps [simp]:
  "live_entries [] = []"
  "live_entries (e # es) = (if re_in_use e = 0 then live_entries es else e # live_entries es)"
  "live_entries (es @ fs) = live_entries es @ live_entries fs"
  by (simp_all add: live_entries_def)

lemma set_live_entries [simp]: "e \<in> set (live_entries es) \<longleftrightarrow> e \<in> set es \<and> re_in_use e \<noteq> 0"
  by (auto simp: live_entries_def)

text \<open>On a well-formed entry the comparison is equality of names.\<close>

lemma entry_matches_name:
  assumes "wf_entry e" and "unat ulen \<le> length uname"
  shows "entry_matches e uname ulen = Inr (re_name e = take (unat ulen) uname)"
proof (cases "re_username_len e = ulen")
  case True
  then show ?thesis using assms by (auto simp: entry_matches_def wf_entry_def re_name_def)
next
  case False
  then have "unat (re_username_len e) \<noteq> unat ulen" by (simp add: word_unat_eq_iff)
  with assms have "re_name e \<noteq> take (unat ulen) uname"
    by (metis length_re_name length_take min.absorb2)
  with False show ?thesis by (simp add: entry_matches_def)
qed

lemma entry_matches_long:
  "wf_entry e \<Longrightarrow> 32 < unat ulen \<Longrightarrow> entry_matches e uname ulen = Inr False"
  by (auto simp: entry_matches_def wf_entry_def)

lemma registry_add_loop_spec:
  assumes "\<forall>e \<in> set es. wf_entry e" and "unat ulen \<le> length uname"
  shows "registry_add_loop es uname ulen i slot =
    (if take (unat ulen) uname \<in> re_name ` set (live_entries es) then Inr None
     else Inr (Some (case slot of Some j \<Rightarrow> Some j
       | None \<Rightarrow> if registry_full es then None
                 else Some (i + length (takeWhile (\<lambda>e. re_in_use e \<noteq> 0) es)))))"
  using assms
  by (induction es arbitrary: i slot)
     (auto simp: entry_matches_name registry_full_def split: option.splits)

lemma registry_search_None:
  assumes "\<forall>e \<in> set es. wf_entry e" and "unat ulen \<le> length uname"
    and "take (unat ulen) uname \<notin> re_name ` set (live_entries es)"
  shows "registry_search es uname ulen i = Inr None"
  using assms by (induction es arbitrary: i) (auto simp: entry_matches_name split: if_splits)

lemma registry_search_Some:
  assumes "\<forall>e \<in> set es. wf_entry e" and "unat ulen \<le> length uname"
    and "take (unat ulen) uname \<in> re_name ` set (live_entries es)"
  shows "\<exists>xs e ys. es = xs @ e # ys \<and> re_in_use e \<noteq> 0 \<and> re_name e = take (unat ulen) uname
    \<and> registry_search es uname ulen i = Inr (Some (i + length xs))"
  using assms
proof (induction es arbitrary: i)
  case Nil
  then show ?case by simp
next
  case (Cons a es)
  show ?case
  proof (cases "re_in_use a \<noteq> 0 \<and> re_name a = take (unat ulen) uname")
    case True
    with Cons.prems show ?thesis
      by (intro exI [of _ "[]"] exI [of _ a] exI [of _ es]) (simp add: entry_matches_name)
  next
    case False
    with Cons.prems have "take (unat ulen) uname \<in> re_name ` set (live_entries es)"
      by (auto split: if_splits)
    with Cons obtain xs e ys where
      "es = xs @ e # ys" "re_in_use e \<noteq> 0" "re_name e = take (unat ulen) uname"
      "registry_search es uname ulen (Suc i) = Inr (Some (Suc i + length xs))"
      by (metis list.set_intros(2))
    with False Cons.prems show ?thesis
      by (intro exI [of _ "a # xs"] exI [of _ e] exI [of _ ys]) (auto simp: entry_matches_name)
  qed
qed

lemma registry_search_long:
  "\<forall>e \<in> set es. wf_entry e \<Longrightarrow> 32 < unat ulen \<Longrightarrow> registry_search es uname ulen i = Inr None"
  by (induction es arbitrary: i) (auto simp: entry_matches_long)

lemma registry_map_None_iff:
  "registry_map reg n = None \<longleftrightarrow> n \<notin> re_name ` set (live_entries reg)"
  by (force simp: registry_map_def map_of_eq_None_iff)

lemma registry_map_Some_iff:
  assumes "wf_registry reg"
  shows "registry_map reg n = Some v \<longleftrightarrow>
    (\<exists>e \<in> set (live_entries reg). re_name e = n \<and> v = (re_stream e, re_public_key e))"
proof -
  have "distinct (map fst (map (\<lambda>e. (re_name e, (re_stream e, re_public_key e))) (live_entries reg)))"
    using assms by (simp add: wf_registry_def comp_def)
  then show ?thesis by (auto simp: registry_map_def map_of_eq_Some_iff)
qed

lemma registry_map_split:
  assumes "wf_registry (xs @ e # ys)" and "re_in_use e \<noteq> 0"
  shows "registry_map (xs @ e # ys) (re_name e) = Some (re_stream e, re_public_key e)"
  using assms by (auto simp: registry_map_Some_iff)

text \<open>Overwriting a free slot adds a binding; clearing the slot of a user removes exactly its
  binding.\<close>

lemma registry_put:
  assumes wf: "wf_registry (xs @ e # ys)" and free: "re_in_use e = 0"
    and e': "wf_entry e'" "re_in_use e' \<noteq> 0" and new: "registry_map (xs @ e # ys) (re_name e') = None"
  shows "wf_registry (xs @ e' # ys)"
    and "registry_map (xs @ e' # ys) =
      (registry_map (xs @ e # ys))(re_name e' \<mapsto> (re_stream e', re_public_key e'))"
proof -
  show wf': "wf_registry (xs @ e' # ys)"
    using wf free e' new by (auto simp: wf_registry_def registry_map_None_iff)
  show "registry_map (xs @ e' # ys) =
      (registry_map (xs @ e # ys))(re_name e' \<mapsto> (re_stream e', re_public_key e'))"
  proof (rule ext)
    fix n
    show "registry_map (xs @ e' # ys) n =
      ((registry_map (xs @ e # ys))(re_name e' \<mapsto> (re_stream e', re_public_key e'))) n"
    proof (cases "n = re_name e'")
      case True
      with registry_map_split [OF wf' e'(2)] show ?thesis by simp
    next
      case False
      then have "registry_map (xs @ e' # ys) n = Some v \<longleftrightarrow> registry_map (xs @ e # ys) n = Some v" for v
        using free e' by (auto simp: registry_map_Some_iff [OF wf] registry_map_Some_iff [OF wf'])
      with False show ?thesis by (metis fun_upd_other option.exhaust)
    qed
  qed
qed

lemma registry_clear:
  assumes wf: "wf_registry (xs @ e # ys)" and live: "re_in_use e \<noteq> 0"
  shows "wf_registry (xs @ zero_entry # ys)"
    and "registry_map (xs @ zero_entry # ys) = (registry_map (xs @ e # ys))(re_name e := None)"
proof -
  show wf': "wf_registry (xs @ zero_entry # ys)"
    using wf live by (auto simp: wf_registry_def)
  have gone: "re_name e \<notin> re_name ` set (live_entries (xs @ zero_entry # ys))"
    using wf live by (auto simp: wf_registry_def)
  show "registry_map (xs @ zero_entry # ys) = (registry_map (xs @ e # ys))(re_name e := None)"
  proof (rule ext)
    fix n
    show "registry_map (xs @ zero_entry # ys) n = ((registry_map (xs @ e # ys))(re_name e := None)) n"
    proof (cases "n = re_name e")
      case True
      with gone show ?thesis by (simp add: registry_map_None_iff)
    next
      case False
      then have "registry_map (xs @ zero_entry # ys) n = Some v \<longleftrightarrow> registry_map (xs @ e # ys) n = Some v" for v
        by (auto simp: registry_map_Some_iff [OF wf] registry_map_Some_iff [OF wf'])
      with False show ?thesis by (metis fun_upd_other option.exhaust)
    qed
  qed
qed

section \<open>The array implements a directory of users\<close>

text \<open>
  The contract: a directory maps the registered names to the stream and public key they were
  registered with, and holds at most 64 of them. A name is passed as a pointer and a length.
\<close>

lemma first_free_split:
  assumes "\<not> registry_full es"
  obtains xs e ys where "es = xs @ e # ys" and "re_in_use e = 0"
    and "length (takeWhile (\<lambda>e. re_in_use e \<noteq> 0) es) = length xs"
proof -
  let ?P = "\<lambda>e. re_in_use e \<noteq> 0"
  have "dropWhile ?P es \<noteq> []" using assms by (auto simp: registry_full_def)
  then obtain e ys where d: "dropWhile ?P es = e # ys" by (cases "dropWhile ?P es") auto
  then have "re_in_use e = 0" using hd_dropWhile [of ?P es] by auto
  moreover have "es = takeWhile ?P es @ e # ys" using d takeWhile_dropWhile_id [of ?P es] by simp
  ultimately show thesis using that by blast
qed

lemma sqmp_registry_add_spec:
  assumes wf: "wf_registry reg" and len: "unat ulen \<le> length uname" "unat ulen \<le> 32"
    and key: "32 \<le> length pubkey"
  shows "if registry_map reg (take (unat ulen) uname) = None \<and> \<not> registry_full reg
    then \<exists>reg'. sqmp_registry_add reg uname ulen stream pubkey = Inr (0, reg') \<and> wf_registry reg'
      \<and> registry_map reg' = (registry_map reg)(take (unat ulen) uname \<mapsto> (stream, take 32 pubkey))
    else sqmp_registry_add reg uname ulen stream pubkey = Inr (-1, reg)"
proof (cases "registry_map reg (take (unat ulen) uname) = None \<and> \<not> registry_full reg")
  case True
  then obtain xs e ys where split: "reg = xs @ e # ys" "re_in_use e = 0"
    "length (takeWhile (\<lambda>e. re_in_use e \<noteq> 0) reg) = length xs"
    using first_free_split by blast
  define e' where "e' = e\<lparr>re_in_use := 1, re_username_len := ulen,
    re_username := take (unat ulen) uname @ drop (unat ulen) (re_username e), re_stream := stream,
    re_public_key := take 32 pubkey\<rparr>"
  have wfe: "length (re_username e) = 32" "length (re_public_key e) = 32"
    using wf split by (auto simp: wf_registry_def wf_entry_def)
  have e': "wf_entry e'" "re_in_use e' \<noteq> 0" "re_name e' = take (unat ulen) uname"
    "re_stream e' = stream" "re_public_key e' = take 32 pubkey"
    using wfe len key by (auto simp: e'_def wf_entry_def re_name_def)
  have "sqmp_registry_add reg uname ulen stream pubkey = Inr (0, xs @ e' # ys)"
    using True wf len key wfe split(1) split(3)
    by (simp add: sqmp_registry_add_def registry_add_loop_spec wf_registry_def registry_map_None_iff
        rdn_def e'_def)
  with registry_put [OF wf [unfolded split(1)] split(2) e'(1,2)] True e' split(1) show ?thesis
    by auto
next
  case False
  with wf len show ?thesis
    by (auto simp: sqmp_registry_add_def registry_add_loop_spec wf_registry_def registry_map_None_iff
        split: if_splits)
qed

lemma registry_search_split:
  assumes wf: "wf_registry reg" and len: "unat ulen \<le> length uname"
  obtains (absent) "registry_map reg (take (unat ulen) uname) = None"
      and "registry_search reg uname ulen 0 = Inr None"
  | (present) xs e ys where "reg = xs @ e # ys" and "re_in_use e \<noteq> 0"
      and "re_name e = take (unat ulen) uname"
      and "registry_map reg (take (unat ulen) uname) = Some (re_stream e, re_public_key e)"
      and "registry_search reg uname ulen 0 = Inr (Some (length xs))"
proof (cases "registry_map reg (take (unat ulen) uname) = None")
  case True
  with wf len have "registry_search reg uname ulen 0 = Inr None"
    by (intro registry_search_None) (auto simp: wf_registry_def registry_map_None_iff)
  with True show thesis by (rule absent)
next
  case False
  with wf len obtain xs e ys where
    "reg = xs @ e # ys" "re_in_use e \<noteq> 0" "re_name e = take (unat ulen) uname"
    "registry_search reg uname ulen 0 = Inr (Some (0 + length xs))"
    using registry_search_Some [of reg ulen uname 0]
    by (auto simp: wf_registry_def registry_map_None_iff)
  with wf registry_map_split [of xs e ys] show thesis by (intro present) auto
qed

lemma sqmp_registry_remove_spec:
  assumes "wf_registry reg" and "unat ulen \<le> length uname"
  shows "\<exists>reg'. sqmp_registry_remove reg uname ulen = Inr reg' \<and> wf_registry reg'
    \<and> registry_map reg' = (registry_map reg)(take (unat ulen) uname := None)"
proof (rule registry_search_split [OF assms])
  assume "registry_map reg (take (unat ulen) uname) = None"
    and "registry_search reg uname ulen 0 = Inr None"
  with assms show ?thesis by (auto simp: sqmp_registry_remove_def fun_upd_idem)
next
  fix xs e ys
  assume "reg = xs @ e # ys" and "re_in_use e \<noteq> 0" and "re_name e = take (unat ulen) uname"
    and "registry_search reg uname ulen 0 = Inr (Some (length xs))"
  with assms(1) registry_clear [of xs e ys] show ?thesis by (auto simp: sqmp_registry_remove_def)
qed

lemma sqmp_registry_find_spec:
  assumes "wf_registry reg" and "unat ulen \<le> length uname"
  shows "sqmp_registry_find reg uname ulen =
    Inr (Option.bind (registry_map reg (take (unat ulen) uname)) fst)"
  by (rule registry_search_split [OF assms]) (auto simp: sqmp_registry_find_def)

lemma sqmp_registry_get_pubkey_spec:
  assumes "wf_registry reg" and "unat ulen \<le> length uname"
  shows "sqmp_registry_get_pubkey reg uname ulen =
    Inr (map_option snd (registry_map reg (take (unat ulen) uname)))"
  by (rule registry_search_split [OF assms])
     (use assms in \<open>auto simp: sqmp_registry_get_pubkey_def rdn_def wf_registry_def wf_entry_def\<close>)

locale user_directory =
  fixes invar :: "'r \<Rightarrow> bool"
    and dir :: "'r \<Rightarrow> bytes \<rightharpoonup> addr option \<times> bytes"
    and full :: "'r \<Rightarrow> bool"
    and add :: "'r \<Rightarrow> bytes \<Rightarrow> u8 \<Rightarrow> addr option \<Rightarrow> bytes \<Rightarrow> fault + int \<times> 'r"
    and remove :: "'r \<Rightarrow> bytes \<Rightarrow> u8 \<Rightarrow> fault + 'r"
    and find_stream :: "'r \<Rightarrow> bytes \<Rightarrow> u8 \<Rightarrow> fault + addr option"
    and get_key :: "'r \<Rightarrow> bytes \<Rightarrow> u8 \<Rightarrow> fault + bytes option"
  assumes add_spec: "invar r \<Longrightarrow> unat ul \<le> length un \<Longrightarrow> unat ul \<le> 32 \<Longrightarrow> 32 \<le> length pk \<Longrightarrow>
      if dir r (take (unat ul) un) = None \<and> \<not> full r
      then \<exists>r'. add r un ul st pk = Inr (0, r') \<and> invar r'
             \<and> dir r' = (dir r)(take (unat ul) un \<mapsto> (st, take 32 pk))
      else add r un ul st pk = Inr (-1, r)"
    and remove_spec: "invar r \<Longrightarrow> unat ul \<le> length un \<Longrightarrow>
      \<exists>r'. remove r un ul = Inr r' \<and> invar r' \<and> dir r' = (dir r)(take (unat ul) un := None)"
    and find_spec: "invar r \<Longrightarrow> unat ul \<le> length un \<Longrightarrow>
      find_stream r un ul = Inr (Option.bind (dir r (take (unat ul) un)) fst)"
    and get_key_spec: "invar r \<Longrightarrow> unat ul \<le> length un \<Longrightarrow>
      get_key r un ul = Inr (map_option snd (dir r (take (unat ul) un)))"
begin

lemma addE:
  assumes "invar r" and "unat ul \<le> length un" "unat ul \<le> 32" and "32 \<le> length pk"
  obtains (registered) r' where "dir r (take (unat ul) un) = None" and "\<not> full r"
      and "add r un ul st pk = Inr (0, r')" and "invar r'"
      and "dir r' = (dir r)(take (unat ul) un \<mapsto> (st, take 32 pk))"
  | (refused) "dir r (take (unat ul) un) \<noteq> None \<or> full r" and "add r un ul st pk = Inr (-1, r)"
  using add_spec [OF assms, of st] by (auto split: if_splits)

lemma add_invar:
  assumes "invar r" and "unat ul \<le> length un" "unat ul \<le> 32" and "32 \<le> length pk"
    and "add r un ul st pk = Inr (c, r')"
  shows "invar r'"
  by (rule addE [OF assms(1-4), of st]) (use assms in auto)

lemma added_is_found:
  assumes "invar r" and "unat ul \<le> length un" "unat ul \<le> 32" and "32 \<le> length pk"
    and "add r un ul st pk = Inr (0, r')"
  shows "find_stream r' un ul = Inr st" and "get_key r' un ul = Inr (Some (take 32 pk))"
  by (rule addE [OF assms(1-4), of st]; use assms in \<open>auto simp: find_spec get_key_spec\<close>)+

lemma add_keeps_others:
  assumes "invar r" and "unat ul \<le> length un" "unat ul \<le> 32" and "32 \<le> length pk"
    and "add r un ul st pk = Inr (c, r')"
    and "unat vl \<le> length vn" and "take (unat vl) vn \<noteq> take (unat ul) un"
  shows "find_stream r' vn vl = find_stream r vn vl" and "get_key r' vn vl = get_key r vn vl"
  by (rule addE [OF assms(1-4), of st]; use assms in \<open>auto simp: find_spec get_key_spec\<close>)+

lemma second_add_refused:
  assumes "invar r" and "unat ul \<le> length un" "unat ul \<le> 32" and "32 \<le> length pk" "32 \<le> length pk'"
    and "add r un ul st pk = Inr (0, r')"
  shows "add r' un ul st' pk' = Inr (-1, r')"
  by (rule addE [OF assms(1-4), of st]) (use assms add_spec [of r' ul un pk' st'] in auto)

lemma remove_after_add:
  assumes "invar r" and "unat ul \<le> length un" "unat ul \<le> 32" and "32 \<le> length pk"
    and "add r un ul st pk = Inr (0, r')"
  obtains r'' where "remove r' un ul = Inr r''" and "invar r''" and "dir r'' = dir r"
proof (rule addE [OF assms(1-4), of st])
  fix r1
  assume "dir r (take (unat ul) un) = None" and "add r un ul st pk = Inr (0, r1)" and "invar r1"
    and "dir r1 = (dir r)(take (unat ul) un \<mapsto> (st, take 32 pk))"
  with assms remove_spec [of r1 ul un] that show thesis by (auto simp: fun_upd_idem)
qed (use assms in auto)

end

interpretation reg: user_directory wf_registry registry_map registry_full
  sqmp_registry_add sqmp_registry_remove sqmp_registry_find sqmp_registry_get_pubkey
  by unfold_locales
     (rule sqmp_registry_add_spec sqmp_registry_remove_spec sqmp_registry_find_spec
        sqmp_registry_get_pubkey_spec; assumption)+

section \<open>Properties\<close>

text \<open>C3: the registry array implements a directory of users. On a well-formed array and a name
  of at most 32 bytes, registering succeeds exactly when the name is new and a slot is free and
  then binds the name to the given stream and key; otherwise it returns -1 and changes nothing.
  Removing unbinds exactly that name, and the two look-ups return what is bound. Every
  operation keeps the array well-formed and stays inside its buffers.\<close>

theorem registry_implements_directory:
  assumes "wf_registry reg" and "unat ulen \<le> length uname" and "unat ulen \<le> 32"
    and "32 \<le> length pubkey"
  shows "(if registry_map reg (take (unat ulen) uname) = None \<and> \<not> registry_full reg
      then \<exists>reg'. sqmp_registry_add reg uname ulen stream pubkey = Inr (0, reg') \<and> wf_registry reg'
        \<and> registry_map reg' = (registry_map reg)(take (unat ulen) uname \<mapsto> (stream, take 32 pubkey))
      else sqmp_registry_add reg uname ulen stream pubkey = Inr (-1, reg))
    \<and> (\<exists>reg'. sqmp_registry_remove reg uname ulen = Inr reg' \<and> wf_registry reg'
        \<and> registry_map reg' = (registry_map reg)(take (unat ulen) uname := None))
    \<and> sqmp_registry_find reg uname ulen
        = Inr (Option.bind (registry_map reg (take (unat ulen) uname)) fst)
    \<and> sqmp_registry_get_pubkey reg uname ulen
        = Inr (map_option snd (registry_map reg (take (unat ulen) uname)))"
  using reg.add_spec [OF assms(1-4), of stream] reg.remove_spec [OF assms(1,2)]
    reg.find_spec [OF assms(1,2)] reg.get_key_spec [OF assms(1,2)]
  by blast

text \<open>A registry with one user, for the witnesses.\<close>

definition one_user_registry :: registry where
  "one_user_registry = zero_entry\<lparr>re_in_use := 1, re_username_len := 1, re_username := 97 # zeros 31,
     re_stream := Some 5\<rparr> # replicate 63 zero_entry"

lemma wf_one_user_registry: "wf_registry one_user_registry"
  by (simp add: one_user_registry_def wf_registry_def wf_entry_def zero_entry_def live_entries_def)

lemma one_user_registry_map:
  "registry_map one_user_registry = [[97] \<mapsto> (Some 5, zeros 32)]"
  by (simp add: one_user_registry_def registry_map_def zero_entry_def live_entries_def re_name_def)

lemma one_user_registry_not_full: "\<not> registry_full one_user_registry"
  by (simp add: one_user_registry_def registry_full_def zero_entry_def)

theorem registry_implements_directory_witness:
  "(\<exists>reg'. sqmp_registry_add one_user_registry [98] 1 (Some 6) (zeros 32) = Inr (0, reg')
      \<and> wf_registry reg' \<and> registry_map reg' = [[97] \<mapsto> (Some 5, zeros 32), [98] \<mapsto> (Some 6, zeros 32)])
   \<and> sqmp_registry_add one_user_registry [97] 1 (Some 6) (zeros 32) = Inr (-1, one_user_registry)
   \<and> sqmp_registry_find one_user_registry [97] 1 = Inr (Some 5)"
  using registry_implements_directory
      [OF wf_one_user_registry, of "1" "[98]" "zeros 32" "Some 6"]
    registry_implements_directory [OF wf_one_user_registry, of "1" "[97]" "zeros 32" "Some 6"]
  by (simp add: one_user_registry_map one_user_registry_not_full)

text \<open>C34: \<^verbatim>\<open>sqmp_registry_add\<close> does not check the length of the name: with a free slot and a
  name longer than 32 bytes, the copy into the entry's \<^verbatim>\<open>username\<close> array runs past its end.\<close>

theorem registry_add_overlong_name_overflows:
  assumes "wf_registry reg" and "\<not> registry_full reg"
    and "32 < unat ulen" and "unat ulen \<le> length uname"
  shows "sqmp_registry_add reg uname ulen stream pubkey = Inl OobWrite"
proof -
  have absent: "take (unat ulen) uname \<notin> re_name ` set (live_entries reg)"
  proof
    assume "take (unat ulen) uname \<in> re_name ` set (live_entries reg)"
    then obtain e where "e \<in> set reg" "length (re_name e) = unat ulen"
      using assms(4) by (auto simp: image_iff) (metis length_take min.absorb2)
    with assms(1,3) show False by (auto simp: wf_registry_def wf_entry_def re_name_def)
  qed
  obtain xs e ys where split: "reg = xs @ e # ys"
    "length (takeWhile (\<lambda>e. re_in_use e \<noteq> 0) reg) = length xs"
    using first_free_split [OF assms(2)] by blast
  then have "length (re_username e) = 32" using assms(1) by (simp add: wf_registry_def wf_entry_def)
  with absent assms split show ?thesis
    by (simp add: sqmp_registry_add_def registry_add_loop_spec wf_registry_def rdn_def)
qed

theorem registry_add_overlong_name_overflows_witness:
  "sqmp_registry_add one_user_registry (zeros 33) 33 None (zeros 32) = Inl OobWrite"
  by (rule registry_add_overlong_name_overflows)
     (simp_all add: wf_one_user_registry one_user_registry_not_full)

end
