(* ===== verification/Quic_Wrapper.thy ===== *)
theory Quic_Wrapper
  imports Sqmp_Prelude
begin

text \<open>
  \<^verbatim>\<open>src/shared/msquic_wrapper.c\<close>: the layer over the MsQuic API. MsQuic is a library outside the
  repository: its answers are the parameter \<open>env\<close> (the status and handle of the n-th API call,
  whether the n-th allocation succeeds, the content of fresh memory), its callbacks are events
  passed to \<open>stream_cb\<close>, \<open>conn_cb\<close> and \<open>listener_cb\<close>, and the calls the wrapper makes are
  recorded in order. The application's callbacks (\<^verbatim>\<open>sqmp_quic_config_t\<close>) are a record of functions
  on the process state, which extends \<open>quic_state\<close>.
\<close>

section \<open>The MsQuic interface\<close>

type_synonym HQUIC = nat
type_synonym QUIC_STATUS = u32

definition QUIC_FAILED :: "QUIC_STATUS \<Rightarrow> bool" where
  "QUIC_FAILED s \<longleftrightarrow> 0 < sint s"

definition QUIC_STATUS_SUCCESS :: QUIC_STATUS where
  "QUIC_STATUS_SUCCESS = 0"

definition QUIC_STATUS_OUT_OF_MEMORY :: QUIC_STATUS where
  "QUIC_STATUS_OUT_OF_MEMORY = 12"

definition QUIC_STATUS_INTERNAL_ERROR :: QUIC_STATUS where
  "QUIC_STATUS_INTERNAL_ERROR = 5"

record quic_settings =
  set_IdleTimeoutMs :: u64
  set_KeepAliveIntervalMs :: "u32 option"
  set_PeerBidiStreamCount :: u16

datatype quic_credential =
    CertificateFile (cred_key: bytes) (cred_cert: bytes)
  | ClientNoCertificateValidation

text \<open>The handle 0 is \<^verbatim>\<open>NULL\<close>, which \<^verbatim>\<open>calloc\<close> stores.\<close>

datatype quic_call =
    MsQuicOpenVersion u32
  | MsQuicClose
  | RegistrationOpen bytes
  | RegistrationClose HQUIC
  | ConfigurationOpen HQUIC bytes quic_settings
  | ConfigurationLoadCredential HQUIC quic_credential
  | ConfigurationClose HQUIC
  | ListenerOpen HQUIC
  | ListenerStart HQUIC bytes u16
  | ListenerClose HQUIC
  | ConnectionOpen HQUIC addr
  | ConnectionSetConfiguration HQUIC HQUIC
  | ConnectionStart HQUIC HQUIC bytes u16
  | ConnectionShutdown HQUIC
  | ConnectionClose HQUIC
  | SetCallbackHandler HQUIC addr
  | StreamOpen HQUIC addr
  | StreamStart HQUIC
  | StreamSend HQUIC bytes addr
  | StreamShutdown HQUIC
  | StreamClose HQUIC

record env =
  env_malloc :: "nat \<Rightarrow> bool"
  env_junk :: "nat \<Rightarrow> nat \<Rightarrow> u8"
  env_status :: "nat \<Rightarrow> quic_call \<Rightarrow> QUIC_STATUS"
  env_handle :: "nat \<Rightarrow> quic_call \<Rightarrow> HQUIC"

datatype quic_stream_event =
    STREAM_RECEIVE u64 "bytes list"
  | PEER_SEND_SHUTDOWN
  | SEND_COMPLETE addr
  | STREAM_SHUTDOWN_COMPLETE bool
  | PEER_SEND_ABORTED
  | SEND_SHUTDOWN_COMPLETE
  | START_COMPLETE
  | STREAM_OTHER

datatype quic_connection_event =
    CONNECTED
  | SHUTDOWN_INITIATED_BY_TRANSPORT
  | SHUTDOWN_INITIATED_BY_PEER
  | CONN_SHUTDOWN_COMPLETE
  | PEER_STREAM_STARTED HQUIC
  | CONN_OTHER

datatype quic_listener_event = NEW_CONNECTION HQUIC | LISTENER_OTHER

section \<open>State\<close>

record sqmp_quic_ctx =
  ctx_reg :: HQUIC
  ctx_config :: HQUIC
  ctx_listener :: HQUIC
  ctx_idle_timeout_ms :: u64

record sqmp_conn =
  conn_handle :: HQUIC
  conn_ctx :: addr
  conn_connect_sem :: nat
  conn_closed_sem :: nat
  conn_connected :: bool
  conn_is_server :: bool
  conn_user_data :: "addr option"

record sqmp_stream =
  stream_handle :: HQUIC
  stream_conn :: addr
  stream_user_data :: "addr option"

record quic_state =
  qs_ctxs :: "addr \<rightharpoonup> sqmp_quic_ctx"
  qs_conns :: "addr \<rightharpoonup> sqmp_conn"
  qs_streams :: "addr \<rightharpoonup> sqmp_stream"
  qs_sendbufs :: "addr \<rightharpoonup> bytes"
  qs_allocs :: nat
  qs_calls :: "quic_call list"

record 's sqmp_quic_config =
  cfg_app_name :: "bytes option"
  cfg_idle_timeout_ms :: u64
  cfg_on_connected :: "(addr \<Rightarrow> 's \<Rightarrow> fault + 's) option"
  cfg_on_disconnected :: "(addr \<Rightarrow> 's \<Rightarrow> fault + 's) option"
  cfg_on_stream_open :: "(addr \<Rightarrow> addr \<Rightarrow> 's \<Rightarrow> fault + 's) option"
  cfg_on_stream_recv :: "(addr \<Rightarrow> bytes \<Rightarrow> nat \<Rightarrow> 's \<Rightarrow> fault + 's) option"
  cfg_on_stream_peer_send_done :: "(addr \<Rightarrow> 's \<Rightarrow> fault + 's) option"
  cfg_on_stream_closed :: "(addr \<Rightarrow> 's \<Rightarrow> fault + 's) option"

text \<open>The n-th allocation gets the address n + 1; addresses are not reused.\<close>

definition alloc :: "env \<Rightarrow> 'a quic_state_scheme \<Rightarrow> addr option \<times> 'a quic_state_scheme" where
  "alloc env s = (if env_malloc env (qs_allocs s) then Some (Suc (qs_allocs s)) else None,
     s\<lparr>qs_allocs := Suc (qs_allocs s)\<rparr>)"

definition fresh_bytes :: "env \<Rightarrow> addr \<Rightarrow> nat \<Rightarrow> bytes" where
  "fresh_bytes env a n = map (env_junk env a) [0..<n]"

definition api_call :: "env \<Rightarrow> quic_call \<Rightarrow> 'a quic_state_scheme \<Rightarrow> QUIC_STATUS \<times> 'a quic_state_scheme" where
  "api_call env c s = (env_status env (length (qs_calls s)) c, s\<lparr>qs_calls := qs_calls s @ [c]\<rparr>)"

text \<open>An API call with an out-parameter for a new handle.\<close>

definition api_open ::
  "env \<Rightarrow> quic_call \<Rightarrow> 'a quic_state_scheme \<Rightarrow> (QUIC_STATUS \<times> HQUIC) \<times> 'a quic_state_scheme" where
  "api_open env c s =
     ((env_status env (length (qs_calls s)) c, env_handle env (length (qs_calls s)) c),
      s\<lparr>qs_calls := qs_calls s @ [c]\<rparr>)"

text \<open>An API call without a result.\<close>

definition api_do :: "quic_call \<Rightarrow> 'a quic_state_scheme \<Rightarrow> 'a quic_state_scheme" where
  "api_do c s = s\<lparr>qs_calls := qs_calls s @ [c]\<rparr>"

definition call_opt :: "(addr \<Rightarrow> 's \<Rightarrow> fault + 's) option \<Rightarrow> addr \<Rightarrow> 's \<Rightarrow> fault + 's" where
  "call_opt cb a s = (case cb of None \<Rightarrow> Inr s | Some f \<Rightarrow> f a s)"

text \<open>The chain \<^verbatim>\<open>stream->conn->ctx\<close> that every operation on a stream follows.\<close>

definition stream_chain ::
  "'a quic_state_scheme \<Rightarrow> addr option \<Rightarrow> fault + sqmp_stream \<times> sqmp_conn \<times> sqmp_quic_ctx" where
  "stream_chain s stream =
     bindr (deref (qs_streams s) stream) (\<lambda>st.
     bindr (deref (qs_conns s) (Some (stream_conn st))) (\<lambda>c.
     bindr (deref (qs_ctxs s) (Some (conn_ctx c))) (\<lambda>x. Inr (st, c, x))))"

definition conn_chain ::
  "'a quic_state_scheme \<Rightarrow> addr option \<Rightarrow> fault + sqmp_conn \<times> sqmp_quic_ctx" where
  "conn_chain s conn =
     bindr (deref (qs_conns s) conn) (\<lambda>c.
     bindr (deref (qs_ctxs s) (Some (conn_ctx c))) (\<lambda>x. Inr (c, x)))"

definition upd_conn :: "addr \<Rightarrow> (sqmp_conn \<Rightarrow> sqmp_conn) \<Rightarrow> 'a quic_state_scheme \<Rightarrow> 'a quic_state_scheme" where
  "upd_conn a f s = s\<lparr>qs_conns := (qs_conns s)(a := map_option f (qs_conns s a))\<rparr>"

section \<open>MsQuic callbacks\<close>

text \<open>The receive loop of \<^verbatim>\<open>stream_cb\<close>: the buffers of the event are laid out one after the other.\<close>

fun copy_buffers :: "bytes \<Rightarrow> nat \<Rightarrow> bytes list \<Rightarrow> fault + bytes" where
  "copy_buffers flat off [] = Inr flat"
| "copy_buffers flat off (b # bs) =
     bindr (write_at flat off b) (\<lambda>flat'. copy_buffers flat' (off + length b) bs)"

definition stream_receive ::
  "env \<Rightarrow> ('a quic_state_scheme) sqmp_quic_config \<Rightarrow> addr \<Rightarrow> u64 \<Rightarrow> bytes list \<Rightarrow>
   'a quic_state_scheme \<Rightarrow> fault + 'a quic_state_scheme" where
  "stream_receive env cfg stream total_len bufs s =
     (let (flat, s1) = alloc env s in
      case flat of
        None \<Rightarrow> Inr s1
      | Some a \<Rightarrow>
          bindr (copy_buffers (fresh_bytes env a (unat (total_len + 1))) 0 bufs) (\<lambda>f1.
          bindr (write_at f1 (unat total_len) [0]) (\<lambda>f2.
            (case cfg_on_stream_recv cfg of
               None \<Rightarrow> Inr s1 | Some recv \<Rightarrow> recv stream f2 (unat total_len) s1))))"

definition stream_cb ::
  "env \<Rightarrow> ('a quic_state_scheme) sqmp_quic_config \<Rightarrow> addr \<Rightarrow> quic_stream_event \<Rightarrow>
   'a quic_state_scheme \<Rightarrow> fault + 'a quic_state_scheme" where
  "stream_cb env cfg stream ev s =
     bindr (stream_chain s (Some stream)) (\<lambda>(st, c, x).
       case ev of
         STREAM_RECEIVE total_len bufs \<Rightarrow> stream_receive env cfg stream total_len bufs s
       | PEER_SEND_SHUTDOWN \<Rightarrow> call_opt (cfg_on_stream_peer_send_done cfg) stream s
       | SEND_COMPLETE context \<Rightarrow>
           bindr (deref (qs_sendbufs s) (Some context)) (\<lambda>_.
             Inr (s\<lparr>qs_sendbufs := (qs_sendbufs s)(context := None)\<rparr>))
       | STREAM_SHUTDOWN_COMPLETE app_close_in_progress \<Rightarrow>
           bindr (call_opt (cfg_on_stream_closed cfg) stream s) (\<lambda>s1.
             let s2 = (if app_close_in_progress then s1 else api_do (StreamClose (stream_handle st)) s1)
             in Inr (s2\<lparr>qs_streams := (qs_streams s2)(stream := None)\<rparr>))
       | PEER_SEND_ABORTED \<Rightarrow> Inr s
       | SEND_SHUTDOWN_COMPLETE \<Rightarrow> Inr s
       | START_COMPLETE \<Rightarrow> Inr s
       | STREAM_OTHER \<Rightarrow> Inr s)"

definition conn_cb ::
  "env \<Rightarrow> ('a quic_state_scheme) sqmp_quic_config \<Rightarrow> addr \<Rightarrow> quic_connection_event \<Rightarrow>
   'a quic_state_scheme \<Rightarrow> fault + 'a quic_state_scheme" where
  "conn_cb env cfg conn ev s =
     bindr (conn_chain s (Some conn)) (\<lambda>(c, x).
       case ev of
         CONNECTED \<Rightarrow>
           bindr (call_opt (cfg_on_connected cfg) conn (upd_conn conn (conn_connected_update (\<lambda>_. True)) s)) (\<lambda>s1.
             Inr (upd_conn conn (conn_connect_sem_update Suc) s1))
       | SHUTDOWN_INITIATED_BY_TRANSPORT \<Rightarrow>
           Inr (if conn_connected c then s else upd_conn conn (conn_connect_sem_update Suc) s)
       | SHUTDOWN_INITIATED_BY_PEER \<Rightarrow> Inr s
       | CONN_SHUTDOWN_COMPLETE \<Rightarrow>
           bindr (if conn_connected c then call_opt (cfg_on_disconnected cfg) conn s else Inr s) (\<lambda>s1.
             if conn_is_server c
             then let s2 = api_do (ConnectionClose (conn_handle c)) s1
                  in Inr (s2\<lparr>qs_conns := (qs_conns s2)(conn := None)\<rparr>)
             else Inr (upd_conn conn (conn_closed_sem_update Suc) s1))
       | PEER_STREAM_STARTED h \<Rightarrow>
           (let (p, s1) = alloc env s in
            case p of
              None \<Rightarrow> Inr (api_do (ConnectionClose h) s1)
            | Some stream \<Rightarrow>
                let s2 = s1\<lparr>qs_streams := (qs_streams s1)(stream \<mapsto>
                      \<lparr>stream_handle = h, stream_conn = conn, stream_user_data = None\<rparr>)\<rparr>;
                    s3 = api_do (SetCallbackHandler h stream) s2
                in (case cfg_on_stream_open cfg of None \<Rightarrow> Inr s3 | Some f \<Rightarrow> f conn stream s3))
       | CONN_OTHER \<Rightarrow> Inr s)"

definition listener_cb ::
  "env \<Rightarrow> addr \<Rightarrow> quic_listener_event \<Rightarrow> 'a quic_state_scheme \<Rightarrow> fault + QUIC_STATUS \<times> 'a quic_state_scheme" where
  "listener_cb env ctx ev s = (case ev of
       LISTENER_OTHER \<Rightarrow> Inr (QUIC_STATUS_SUCCESS, s)
     | NEW_CONNECTION h \<Rightarrow>
         (let (p, s1) = alloc env s in
          case p of
            None \<Rightarrow> Inr (QUIC_STATUS_OUT_OF_MEMORY, s1)
          | Some conn \<Rightarrow>
              bindr (deref (qs_ctxs s1) (Some ctx)) (\<lambda>x.
              let s2 = s1\<lparr>qs_conns := (qs_conns s1)(conn \<mapsto>
                    \<lparr>conn_handle = h, conn_ctx = ctx, conn_connect_sem = 0, conn_closed_sem = 0,
                     conn_connected = False, conn_is_server = True, conn_user_data = None\<rparr>)\<rparr>;
                  s3 = api_do (SetCallbackHandler h conn) s2;
                  (st, s4) = api_call env (ConnectionSetConfiguration h (ctx_config x)) s3
              in if QUIC_FAILED st
                 then let s5 = api_do (ConnectionClose h) s4
                      in Inr (QUIC_STATUS_INTERNAL_ERROR, s5\<lparr>qs_conns := (qs_conns s5)(conn := None)\<rparr>)
                 else Inr (QUIC_STATUS_SUCCESS, s4))))"

section \<open>Contexts\<close>

definition QUIC_API_VERSION_2 :: u32 where
  "QUIC_API_VERSION_2 = 2"

definition sqmp_quic_init ::
  "env \<Rightarrow> ('a quic_state_scheme) sqmp_quic_config \<Rightarrow> 'a quic_state_scheme \<Rightarrow>
   addr option \<times> 'a quic_state_scheme" where
  "sqmp_quic_init env cfg s =
     (let (p, s1) = alloc env s in
      case p of
        None \<Rightarrow> (None, s1)
      | Some ctx \<Rightarrow>
          let (st, s2) = api_call env (MsQuicOpenVersion QUIC_API_VERSION_2) s1 in
          if QUIC_FAILED st then (None, s2)
          else
            let app = (case cfg_app_name cfg of None \<Rightarrow> ascii ''sqmp'' | Some n \<Rightarrow> n);
                ((st2, reg), s3) = api_open env (RegistrationOpen app) s2 in
            if QUIC_FAILED st2 then (None, api_do MsQuicClose s3)
            else (Some ctx, s3\<lparr>qs_ctxs := (qs_ctxs s3)(ctx \<mapsto>
                   \<lparr>ctx_reg = reg, ctx_config = 0, ctx_listener = 0,
                    ctx_idle_timeout_ms = cfg_idle_timeout_ms cfg\<rparr>)\<rparr>))"

definition sqmp_quic_destroy ::
  "addr option \<Rightarrow> 'a quic_state_scheme \<Rightarrow> fault + 'a quic_state_scheme" where
  "sqmp_quic_destroy ctx s = (case ctx of
       None \<Rightarrow> Inr s
     | Some a \<Rightarrow>
         bindr (deref (qs_ctxs s) ctx) (\<lambda>x.
         let s1 = (if ctx_listener x \<noteq> 0 then api_do (ListenerClose (ctx_listener x)) s else s);
             s2 = (if ctx_config x \<noteq> 0 then api_do (ConfigurationClose (ctx_config x)) s1 else s1);
             s3 = (if ctx_reg x \<noteq> 0 then api_do (RegistrationClose (ctx_reg x)) s2 else s2);
             s4 = api_do MsQuicClose s3
         in Inr (s4\<lparr>qs_ctxs := (qs_ctxs s4)(a := None)\<rparr>)))"

text \<open>\<^verbatim>\<open>ctx->cfg.idle_timeout_ms ? ctx->cfg.idle_timeout_ms : 30000\<close>\<close>

definition idle_timeout :: "sqmp_quic_ctx \<Rightarrow> u64" where
  "idle_timeout x = (if ctx_idle_timeout_ms x = 0 then 30000 else ctx_idle_timeout_ms x)"

definition sqmp_quic_listen ::
  "env \<Rightarrow> addr \<Rightarrow> bytes \<Rightarrow> u16 \<Rightarrow> bytes \<Rightarrow> bytes \<Rightarrow> 'a quic_state_scheme \<Rightarrow>
   fault + int \<times> 'a quic_state_scheme" where
  "sqmp_quic_listen env ctx alpn port cert_file key_file s =
     bindr (deref (qs_ctxs s) (Some ctx)) (\<lambda>x.
     let settings = \<lparr>set_IdleTimeoutMs = idle_timeout x, set_KeepAliveIntervalMs = None,
                     set_PeerBidiStreamCount = 16\<rparr>;
         ((st, config), s1) = api_open env (ConfigurationOpen (ctx_reg x) alpn settings) s in
     if QUIC_FAILED st then Inr (-1, s1)
     else
       let x1 = x\<lparr>ctx_config := config\<rparr>;
           s2 = s1\<lparr>qs_ctxs := (qs_ctxs s1)(ctx \<mapsto> x1)\<rparr>;
           (st2, s3) = api_call env (ConfigurationLoadCredential config (CertificateFile key_file cert_file)) s2 in
       if QUIC_FAILED st2 then Inr (-1, s3)
       else
         let ((st3, listener), s4) = api_open env (ListenerOpen (ctx_reg x)) s3 in
         if QUIC_FAILED st3 then Inr (-1, s4)
         else
           let s5 = s4\<lparr>qs_ctxs := (qs_ctxs s4)(ctx \<mapsto> x1\<lparr>ctx_listener := listener\<rparr>)\<rparr>;
               (st4, s6) = api_call env (ListenerStart listener alpn port) s5 in
           if QUIC_FAILED st4 then Inr (-1, s6) else Inr (0, s6))"

section \<open>Blocking on a semaphore\<close>

text \<open>
  \<^verbatim>\<open>while (sem_wait(&sem) == -1 && errno == EINTR);\<close> returns once the semaphore has been posted.
  While the thread is blocked MsQuic delivers connection events; \<open>evs\<close> are the events it will
  deliver. \<open>None\<close> is a call that never returns: the events end and the semaphore was not posted.
\<close>

fun sem_wait_conn ::
  "env \<Rightarrow> ('a quic_state_scheme) sqmp_quic_config \<Rightarrow> (sqmp_conn \<Rightarrow> nat) \<Rightarrow>
   ((nat \<Rightarrow> nat) \<Rightarrow> sqmp_conn \<Rightarrow> sqmp_conn) \<Rightarrow> addr \<Rightarrow> quic_connection_event list \<Rightarrow>
   'a quic_state_scheme \<Rightarrow> fault + (quic_connection_event list \<times> 'a quic_state_scheme) option" where
  "sem_wait_conn env cfg sem sem_upd conn evs s =
     bindr (deref (qs_conns s) (Some conn)) (\<lambda>c.
       if 0 < sem c then Inr (Some (evs, upd_conn conn (sem_upd (\<lambda>n. n - 1)) s))
       else (case evs of
           [] \<Rightarrow> Inr None
         | e # es \<Rightarrow> bindr (conn_cb env cfg conn e s) (sem_wait_conn env cfg sem sem_upd conn es)))"

declare sem_wait_conn.simps [simp del]

section \<open>Connections\<close>

text \<open>The end of \<^verbatim>\<open>sqmp_quic_connect\<close>, once the connection has been started.\<close>

definition connect_wait ::
  "env \<Rightarrow> ('a quic_state_scheme) sqmp_quic_config \<Rightarrow> addr \<Rightarrow> quic_connection_event list \<Rightarrow>
   'a quic_state_scheme \<Rightarrow> fault + (addr option \<times> quic_connection_event list \<times> 'a quic_state_scheme) option" where
  "connect_wait env cfg conn evs s =
     bindr (sem_wait_conn env cfg conn_connect_sem conn_connect_sem_update conn evs s) (\<lambda>r.
       case r of
         None \<Rightarrow> Inr None
       | Some (evs', s1) \<Rightarrow>
           bindr (deref (qs_conns s1) (Some conn)) (\<lambda>c.
           if conn_connected c then Inr (Some (Some conn, evs', s1))
           else bindr (sem_wait_conn env cfg conn_closed_sem conn_closed_sem_update conn evs' s1) (\<lambda>r2.
             case r2 of
               None \<Rightarrow> Inr None
             | Some (evs'', s2) \<Rightarrow>
                 let s3 = api_do (ConnectionClose (conn_handle c)) s2
                 in Inr (Some (None, evs'', s3\<lparr>qs_conns := (qs_conns s3)(conn := None)\<rparr>)))))"

definition sqmp_quic_connect ::
  "env \<Rightarrow> ('a quic_state_scheme) sqmp_quic_config \<Rightarrow> addr \<Rightarrow> bytes \<Rightarrow> bytes \<Rightarrow> u16 \<Rightarrow>
   quic_connection_event list \<Rightarrow> 'a quic_state_scheme \<Rightarrow>
   fault + (addr option \<times> quic_connection_event list \<times> 'a quic_state_scheme) option" where
  "sqmp_quic_connect env cfg ctx alpn host port evs s =
     bindr (deref (qs_ctxs s) (Some ctx)) (\<lambda>x.
     let idle_ms = idle_timeout x;
         settings = \<lparr>set_IdleTimeoutMs = idle_ms, set_KeepAliveIntervalMs = Some (ucast (idle_ms div 2)),
                     set_PeerBidiStreamCount = 16\<rparr>;
         ((st, config), s1) = api_open env (ConfigurationOpen (ctx_reg x) alpn settings) s in
     if QUIC_FAILED st then Inr (Some (None, evs, s1))
     else
       let s2 = s1\<lparr>qs_ctxs := (qs_ctxs s1)(ctx \<mapsto> x\<lparr>ctx_config := config\<rparr>)\<rparr>;
           (st2, s3) = api_call env (ConfigurationLoadCredential config ClientNoCertificateValidation) s2 in
       if QUIC_FAILED st2 then Inr (Some (None, evs, s3))
       else
         let (p, s4) = alloc env s3 in
         case p of
           None \<Rightarrow> Inr (Some (None, evs, s4))
         | Some conn \<Rightarrow>
             let c0 = \<lparr>conn_handle = 0, conn_ctx = ctx, conn_connect_sem = 0, conn_closed_sem = 0,
                       conn_connected = False, conn_is_server = False, conn_user_data = None\<rparr>;
                 ((st3, h), s5) = api_open env (ConnectionOpen (ctx_reg x) conn) s4 in
             if QUIC_FAILED st3 then Inr (Some (None, evs, s5))
             else
               let s6 = s5\<lparr>qs_conns := (qs_conns s5)(conn \<mapsto> c0\<lparr>conn_handle := h\<rparr>)\<rparr>;
                   (st4, s7) = api_call env (ConnectionStart h config host port) s6 in
               if QUIC_FAILED st4
               then let s8 = api_do (ConnectionClose h) s7
                    in Inr (Some (None, evs, s8\<lparr>qs_conns := (qs_conns s8)(conn := None)\<rparr>))
               else connect_wait env cfg conn evs s7)"

definition sqmp_quic_disconnect ::
  "env \<Rightarrow> ('a quic_state_scheme) sqmp_quic_config \<Rightarrow> addr option \<Rightarrow> quic_connection_event list \<Rightarrow>
   'a quic_state_scheme \<Rightarrow> fault + (quic_connection_event list \<times> 'a quic_state_scheme) option" where
  "sqmp_quic_disconnect env cfg conn evs s = (case conn of
       None \<Rightarrow> Inr (Some (evs, s))
     | Some a \<Rightarrow>
         bindr (conn_chain s conn) (\<lambda>(c, x).
         bindr (sem_wait_conn env cfg conn_closed_sem conn_closed_sem_update a evs
                  (api_do (ConnectionShutdown (conn_handle c)) s)) (\<lambda>r.
           case r of
             None \<Rightarrow> Inr None
           | Some (evs', s1) \<Rightarrow>
               let s2 = api_do (ConnectionClose (conn_handle c)) s1
               in Inr (Some (evs', s2\<lparr>qs_conns := (qs_conns s2)(a := None)\<rparr>)))))"

section \<open>Streams\<close>

definition sqmp_stream_open ::
  "env \<Rightarrow> addr \<Rightarrow> 'a quic_state_scheme \<Rightarrow> fault + addr option \<times> 'a quic_state_scheme" where
  "sqmp_stream_open env conn s =
     (let (p, s1) = alloc env s in
      case p of
        None \<Rightarrow> Inr (None, s1)
      | Some stream \<Rightarrow>
          bindr (conn_chain s1 (Some conn)) (\<lambda>(c, x).
          let ((st, h), s2) = api_open env (StreamOpen (conn_handle c) stream) s1 in
          if QUIC_FAILED st then Inr (None, s2)
          else
            let s3 = s2\<lparr>qs_streams := (qs_streams s2)(stream \<mapsto>
                  \<lparr>stream_handle = h, stream_conn = conn, stream_user_data = None\<rparr>)\<rparr>;
                (st2, s4) = api_call env (StreamStart h) s3 in
            if QUIC_FAILED st2
            then let s5 = api_do (StreamClose h) s4
                 in Inr (None, s5\<lparr>qs_streams := (qs_streams s5)(stream := None)\<rparr>)
            else Inr (Some stream, s4)))"

text \<open>The data is copied into a send buffer that lives until \<^verbatim>\<open>SEND_COMPLETE\<close>; the length MsQuic
  sees is the 32-bit \<^verbatim>\<open>(uint32_t)len\<close>.\<close>

definition sqmp_stream_send ::
  "env \<Rightarrow> addr option \<Rightarrow> bytes \<Rightarrow> nat \<Rightarrow> 'a quic_state_scheme \<Rightarrow> fault + int \<times> 'a quic_state_scheme" where
  "sqmp_stream_send env stream data len s =
     (let (p, s1) = alloc env s in
      case p of
        None \<Rightarrow> Inr (-1, s1)
      | Some sb \<Rightarrow>
          bindr (rdn data 0 len) (\<lambda>copy.
          bindr (stream_chain s1 stream) (\<lambda>(st, c, x).
          let s2 = s1\<lparr>qs_sendbufs := (qs_sendbufs s1)(sb \<mapsto> copy)\<rparr>;
              (status, s3) = api_call env
                 (StreamSend (stream_handle st) (take (unat (of_nat len :: u32)) copy) sb) s2 in
          if QUIC_FAILED status
          then Inr (-1, s3\<lparr>qs_sendbufs := (qs_sendbufs s3)(sb := None)\<rparr>)
          else Inr (0, s3))))"

definition sqmp_stream_send_done :: "addr \<Rightarrow> 'a quic_state_scheme \<Rightarrow> fault + 'a quic_state_scheme" where
  "sqmp_stream_send_done stream s =
     bindr (stream_chain s (Some stream)) (\<lambda>(st, c, x). Inr (api_do (StreamShutdown (stream_handle st)) s))"

definition sqmp_stream_close :: "addr \<Rightarrow> 'a quic_state_scheme \<Rightarrow> fault + 'a quic_state_scheme" where
  "sqmp_stream_close stream s =
     bindr (stream_chain s (Some stream)) (\<lambda>(st, c, x).
       Inr (api_do (StreamClose (stream_handle st)) (api_do (StreamShutdown (stream_handle st)) s)))"

definition sqmp_conn_set_user_data :: "addr \<Rightarrow> addr option \<Rightarrow> 'a quic_state_scheme \<Rightarrow> fault + 'a quic_state_scheme" where
  "sqmp_conn_set_user_data c d s =
     bindr (deref (qs_conns s) (Some c)) (\<lambda>v. Inr (s\<lparr>qs_conns := (qs_conns s)(c \<mapsto> v\<lparr>conn_user_data := d\<rparr>)\<rparr>))"

definition sqmp_conn_get_user_data :: "addr \<Rightarrow> 'a quic_state_scheme \<Rightarrow> fault + addr option" where
  "sqmp_conn_get_user_data c s = bindr (deref (qs_conns s) (Some c)) (\<lambda>v. Inr (conn_user_data v))"

definition sqmp_stream_set_user_data :: "addr \<Rightarrow> addr option \<Rightarrow> 'a quic_state_scheme \<Rightarrow> fault + 'a quic_state_scheme" where
  "sqmp_stream_set_user_data st d s =
     bindr (deref (qs_streams s) (Some st)) (\<lambda>v.
       Inr (s\<lparr>qs_streams := (qs_streams s)(st \<mapsto> v\<lparr>stream_user_data := d\<rparr>)\<rparr>))"

definition sqmp_stream_get_user_data :: "addr \<Rightarrow> 'a quic_state_scheme \<Rightarrow> fault + addr option" where
  "sqmp_stream_get_user_data st s = bindr (deref (qs_streams s) (Some st)) (\<lambda>v. Inr (stream_user_data v))"

section \<open>The receive path\<close>

lemma copy_buffers_append:
  assumes "length pre = off" and "length (concat bufs) \<le> length post"
  shows "copy_buffers (pre @ post) off bufs
           = Inr (pre @ concat bufs @ drop (length (concat bufs)) post)"
  using assms
proof (induction bufs arbitrary: pre post off)
  case Nil
  then show ?case by simp
next
  case (Cons b bs)
  have "write_at (pre @ post) off b = Inr ((pre @ b) @ drop (length b) post)"
    using Cons.prems by (simp add: write_at_def)
  then show ?case
    using Cons.IH [of "pre @ b" "off + length b" "drop (length b) post"] Cons.prems
    by (simp add: add.commute)
qed

lemma write_at_last:
  "length b = Suc n \<Longrightarrow> write_at b n [x] = Inr (take n b @ [x])"
  by (simp add: write_at_def)

lemma length_fresh_bytes [simp]: "length (fresh_bytes env a n) = n"
  by (simp add: fresh_bytes_def)

lemma stream_receive_flat:
  assumes "env_malloc env (qs_allocs s)" and "cfg_on_stream_recv cfg = Some recv"
    and "unat total_len = length (concat bufs)" and "length (concat bufs) < 2 ^ 64 - 1"
  shows "stream_receive env cfg st total_len bufs s
           = recv st (concat bufs @ [0]) (length (concat bufs)) (s\<lparr>qs_allocs := Suc (qs_allocs s)\<rparr>)"
proof -
  let ?n = "length (concat bufs)"
  have "unat (total_len + 1) = Suc ?n"
    using assms(3,4) by (simp add: unat_word_ariths)
  moreover have "copy_buffers (fresh_bytes env a (Suc ?n)) 0 bufs
      = Inr (concat bufs @ drop ?n (fresh_bytes env a (Suc ?n)))" for a
    using copy_buffers_append [of "[]" 0 bufs "fresh_bytes env a (Suc ?n)"] by simp
  ultimately show ?thesis
    using assms by (simp add: stream_receive_def alloc_def write_at_last)
qed

section \<open>Sending\<close>

lemma sqmp_stream_send_eq:
  assumes "stream_chain s (Some st) = Inr (x, c, q)" and "env_malloc env (qs_allocs s)"
  shows "sqmp_stream_send env (Some st) data (length data) s =
    (let sb = Suc (qs_allocs s);
         call = StreamSend (stream_handle x) (take (length data mod 2 ^ 32) data) sb;
         s' = s\<lparr>qs_allocs := Suc (qs_allocs s), qs_calls := qs_calls s @ [call]\<rparr>
     in if QUIC_FAILED (env_status env (length (qs_calls s)) call)
        then Inr (-1, s'\<lparr>qs_sendbufs := (qs_sendbufs s)(sb := None)\<rparr>)
        else Inr (0, s'\<lparr>qs_sendbufs := (qs_sendbufs s)(sb \<mapsto> data)\<rparr>))"
proof -
  have "stream_chain (s\<lparr>qs_allocs := n\<rparr>) (Some st) = Inr (x, c, q)" for n
    using assms(1) by (simp add: stream_chain_def)
  then show ?thesis
    using assms(2)
    by (simp add: sqmp_stream_send_def alloc_def api_call_def rdn_all Let_def unat_of_nat split: prod.splits)
qed

section \<open>Applications on top of the wrapper\<close>

text \<open>
  An application is a record of callbacks. When its invariant does not depend on the wrapper's own
  heaps and every callback keeps it, every MsQuic event keeps it.
\<close>

locale quic_application =
  fixes cfg :: "('a quic_state_scheme) sqmp_quic_config" and inv :: "'a quic_state_scheme \<Rightarrow> bool"
  assumes frame_ctxs: "inv s \<Longrightarrow> inv (s\<lparr>qs_ctxs := xs\<rparr>)"
    and frame_conns: "inv s \<Longrightarrow> inv (s\<lparr>qs_conns := cs\<rparr>)"
    and frame_streams: "inv s \<Longrightarrow> inv (s\<lparr>qs_streams := ss\<rparr>)"
    and frame_sendbufs: "inv s \<Longrightarrow> inv (s\<lparr>qs_sendbufs := bs\<rparr>)"
    and frame_calls: "inv s \<Longrightarrow> inv (s\<lparr>qs_calls := ks\<rparr>)"
    and frame_allocs: "inv s \<Longrightarrow> inv (s\<lparr>qs_allocs := n\<rparr>)"
    and on_connected: "cfg_on_connected cfg = Some f1 \<Longrightarrow> inv s \<Longrightarrow> f1 c s = Inr s' \<Longrightarrow> inv s'"
    and on_disconnected: "cfg_on_disconnected cfg = Some f1 \<Longrightarrow> inv s \<Longrightarrow> f1 c s = Inr s' \<Longrightarrow> inv s'"
    and on_stream_open: "cfg_on_stream_open cfg = Some f2 \<Longrightarrow> inv s \<Longrightarrow> f2 c st s = Inr s' \<Longrightarrow> inv s'"
    and on_stream_recv: "cfg_on_stream_recv cfg = Some f3 \<Longrightarrow> inv s \<Longrightarrow> f3 st d n s = Inr s' \<Longrightarrow> inv s'"
    and on_peer_send_done:
      "cfg_on_stream_peer_send_done cfg = Some f1 \<Longrightarrow> inv s \<Longrightarrow> f1 st s = Inr s' \<Longrightarrow> inv s'"
    and on_stream_closed: "cfg_on_stream_closed cfg = Some f1 \<Longrightarrow> inv s \<Longrightarrow> f1 st s = Inr s' \<Longrightarrow> inv s'"
begin

lemmas frames = frame_ctxs frame_conns frame_streams frame_sendbufs frame_calls frame_allocs

lemma inv_api_do: "inv s \<Longrightarrow> inv (api_do c s)"
  by (simp add: api_do_def frames)

lemma inv_upd_conn: "inv s \<Longrightarrow> inv (upd_conn c f s)"
  by (simp add: upd_conn_def frames)

lemma inv_call_opt:
  assumes "call_opt cb x s = Inr s'" and "inv s"
    and "\<And>f. cb = Some f \<Longrightarrow> f x s = Inr s' \<Longrightarrow> inv s'"
  shows "inv s'"
  using assms by (auto simp: call_opt_def split: option.splits)

lemma inv_stream_receive:
  "stream_receive env cfg st n bufs s = Inr s' \<Longrightarrow> inv s \<Longrightarrow> inv s'"
  by (auto simp: stream_receive_def alloc_def bindr_eq_Inr_iff Let_def frames
      split: if_splits option.splits elim!: on_stream_recv [rotated 2])

lemma inv_stream_cb:
  assumes "stream_cb env cfg st ev s = Inr s'" and "inv s"
  shows "inv s'"
proof (cases ev)
  case (STREAM_RECEIVE n bufs)
  then show ?thesis using assms by (auto simp: stream_cb_def bindr_eq_Inr_iff elim: inv_stream_receive)
next
  case PEER_SEND_SHUTDOWN
  then show ?thesis
    using assms by (auto simp: stream_cb_def bindr_eq_Inr_iff elim: inv_call_opt on_peer_send_done)
next
  case (STREAM_SHUTDOWN_COMPLETE b)
  then obtain s1 where "call_opt (cfg_on_stream_closed cfg) st s = Inr s1"
    and s': "\<exists>h. s' = (if b then s1 else api_do (StreamClose h) s1)\<lparr>qs_streams := (qs_streams s1)(st := None)\<rparr>"
    using assms by (cases b) (auto simp: stream_cb_def bindr_eq_Inr_iff api_do_def Let_def)
  then have "inv s1" using assms(2) by (auto elim: inv_call_opt on_stream_closed)
  then show ?thesis using s' by (auto simp: frames inv_api_do)
qed (use assms in \<open>auto simp: stream_cb_def bindr_eq_Inr_iff frames\<close>)

lemma inv_conn_cb:
  assumes "conn_cb env cfg c ev s = Inr s'" and "inv s"
  shows "inv s'"
proof (cases ev)
  case CONNECTED
  then obtain s1 where
    "call_opt (cfg_on_connected cfg) c (upd_conn c (conn_connected_update (\<lambda>_. True)) s) = Inr s1"
    and s': "s' = upd_conn c (conn_connect_sem_update Suc) s1"
    using assms by (auto simp: conn_cb_def bindr_eq_Inr_iff)
  then have "inv s1" using assms(2) by (auto elim!: inv_call_opt elim: on_connected intro: inv_upd_conn)
  then show ?thesis using s' by (simp add: inv_upd_conn)
next
  case CONN_SHUTDOWN_COMPLETE
  then obtain s1 v where
    "s1 = s \<or> call_opt (cfg_on_disconnected cfg) c s = Inr s1"
    and s': "s' = (api_do (ConnectionClose v) s1)\<lparr>qs_conns := (qs_conns s1)(c := None)\<rparr>
      \<or> s' = upd_conn c (conn_closed_sem_update Suc) s1"
    using assms
    by (fastforce simp: conn_cb_def bindr_eq_Inr_iff api_do_def Let_def split: if_splits)
  then have "inv s1" using assms(2) by (auto elim: inv_call_opt on_disconnected)
  then show ?thesis using s' by (auto simp: frames inv_api_do inv_upd_conn)
next
  case (PEER_STREAM_STARTED h)
  then show ?thesis
    using assms
    by (auto simp: conn_cb_def bindr_eq_Inr_iff alloc_def Let_def frames inv_api_do
        split: if_splits option.splits elim!: on_stream_open [rotated 2])
qed (use assms in \<open>auto simp: conn_cb_def bindr_eq_Inr_iff inv_upd_conn split: if_splits\<close>)

lemma inv_listener_cb:
  "listener_cb env ctx ev s = Inr (st, s') \<Longrightarrow> inv s \<Longrightarrow> inv s'"
  by (auto simp: listener_cb_def bindr_eq_Inr_iff alloc_def api_do_def api_call_def Let_def frames
      split: quic_listener_event.splits if_splits option.splits)

text \<open>The calls that wait let MsQuic deliver events; the invariant holds when they return.\<close>

lemma inv_sem_wait_conn:
  "sem_wait_conn env cfg sem upd c evs s = Inr (Some (evs', s')) \<Longrightarrow> inv s \<Longrightarrow> inv s'"
proof (induction evs arbitrary: s)
  case Nil
  then show ?case
    by (subst (asm) sem_wait_conn.simps) (auto simp: bindr_eq_Inr_iff inv_upd_conn split: if_splits)
next
  case (Cons e es)
  from Cons.prems(1) consider v where "s' = upd_conn c (upd (\<lambda>n. n - 1)) s"
    | s1 where "conn_cb env cfg c e s = Inr s1" "sem_wait_conn env cfg sem upd c es s1 = Inr (Some (evs', s'))"
    by (subst (asm) sem_wait_conn.simps) (auto simp: bindr_eq_Inr_iff split: if_splits)
  then show ?case using Cons by cases (auto simp: inv_upd_conn dest: inv_conn_cb)
qed

lemma inv_connect_wait:
  "connect_wait env cfg c evs s = Inr (Some (r, evs', s')) \<Longrightarrow> inv s \<Longrightarrow> inv s'"
  by (auto simp: connect_wait_def bindr_eq_Inr_iff Let_def split: option.splits if_splits
      dest!: inv_sem_wait_conn intro!: frames inv_api_do)

lemma inv_connect:
  "sqmp_quic_connect env cfg ctx alpn host port evs s = Inr (Some (r, evs', s')) \<Longrightarrow> inv s \<Longrightarrow> inv s'"
  by (auto simp: sqmp_quic_connect_def bindr_eq_Inr_iff Let_def alloc_def api_call_def api_open_def
      split: option.splits if_splits dest!: inv_connect_wait intro!: frames inv_api_do elim!: inv_connect_wait)

lemma inv_disconnect:
  "sqmp_quic_disconnect env cfg c evs s = Inr (Some (evs', s')) \<Longrightarrow> inv s \<Longrightarrow> inv s'"
  by (auto simp: sqmp_quic_disconnect_def bindr_eq_Inr_iff Let_def split: option.splits
      dest!: inv_sem_wait_conn intro!: frames inv_api_do)

lemma inv_init: "sqmp_quic_init env cfg' s = (r, s') \<Longrightarrow> inv s \<Longrightarrow> inv s'"
  by (auto simp: sqmp_quic_init_def alloc_def api_call_def api_open_def Let_def
      split: if_splits intro!: frames inv_api_do)

lemma inv_destroy: "sqmp_quic_destroy c s = Inr s' \<Longrightarrow> inv s \<Longrightarrow> inv s'"
  by (auto simp: sqmp_quic_destroy_def bindr_eq_Inr_iff Let_def split: option.splits intro!: frames inv_api_do)

lemma inv_stream_open: "sqmp_stream_open env c s = Inr (r, s') \<Longrightarrow> inv s \<Longrightarrow> inv s'"
  by (auto simp: sqmp_stream_open_def bindr_eq_Inr_iff alloc_def api_call_def api_open_def Let_def
      split: if_splits intro!: frames inv_api_do)

lemma inv_user_data:
  "sqmp_conn_set_user_data c d s = Inr s' \<Longrightarrow> inv s \<Longrightarrow> inv s'"
  "sqmp_stream_set_user_data c d s = Inr s' \<Longrightarrow> inv s \<Longrightarrow> inv s'"
  by (auto simp: sqmp_conn_set_user_data_def sqmp_stream_set_user_data_def bindr_eq_Inr_iff intro!: frames)

lemma inv_stream_send: "sqmp_stream_send env st d n s = Inr (r, s') \<Longrightarrow> inv s \<Longrightarrow> inv s'"
  by (auto simp: sqmp_stream_send_def bindr_eq_Inr_iff alloc_def api_call_def Let_def
      split: if_splits intro!: frames)

end

section \<open>Library resources\<close>

text \<open>What a trace of API calls holds open: the library reference of \<^verbatim>\<open>MsQuicOpenVersion\<close> and the
  handles of successful open calls that have not been closed.\<close>

datatype quic_resource =
    Library | Registration HQUIC | Configuration HQUIC | Listener HQUIC | Connection HQUIC | QStream HQUIC

fun opens :: "quic_call \<Rightarrow> HQUIC \<Rightarrow> quic_resource option" where
  "opens (MsQuicOpenVersion v) h = Some Library"
| "opens (RegistrationOpen n) h = Some (Registration h)"
| "opens (ConfigurationOpen r a x) h = Some (Configuration h)"
| "opens (ListenerOpen r) h = Some (Listener h)"
| "opens (ConnectionOpen r c) h = Some (Connection h)"
| "opens (StreamOpen c s) h = Some (QStream h)"
| "opens _ h = None"

fun closes :: "quic_call \<Rightarrow> quic_resource option" where
  "closes MsQuicClose = Some Library"
| "closes (RegistrationClose h) = Some (Registration h)"
| "closes (ConfigurationClose h) = Some (Configuration h)"
| "closes (ListenerClose h) = Some (Listener h)"
| "closes (ConnectionClose h) = Some (Connection h)"
| "closes (StreamClose h) = Some (QStream h)"
| "closes _ = None"

definition held_after :: "env \<Rightarrow> nat \<Rightarrow> quic_call \<Rightarrow> quic_resource list \<Rightarrow> quic_resource list" where
  "held_after env n c r =
     (case closes c of Some x \<Rightarrow> remove1 x r
      | None \<Rightarrow> (case opens c (env_handle env n c) of None \<Rightarrow> r
          | Some x \<Rightarrow> if QUIC_FAILED (env_status env n c) then r else x # r))"

fun held :: "env \<Rightarrow> nat \<Rightarrow> quic_call list \<Rightarrow> quic_resource list \<Rightarrow> quic_resource list" where
  "held env n [] r = r"
| "held env n (c # cs) r = held env (Suc n) cs (held_after env n c r)"

definition resources_held :: "env \<Rightarrow> 'a quic_state_scheme \<Rightarrow> quic_resource list" where
  "resources_held env s = held env 0 (qs_calls s) []"

lemma held_append: "held env n (a @ b) r = held env (n + length a) b (held env n a r)"
  by (induction a arbitrary: n r) auto

lemma resources_held_call:
  "resources_held env (s\<lparr>qs_calls := qs_calls s @ [c]\<rparr>)
     = held_after env (length (qs_calls s)) c (resources_held env s)"
  by (simp add: resources_held_def held_append)

lemma resources_held_frame:
  "qs_calls s' = qs_calls s \<Longrightarrow> resources_held env s' = resources_held env s"
  by (simp add: resources_held_def)

definition handles_nonnull :: "env \<Rightarrow> bool" where
  "handles_nonnull env \<longleftrightarrow> (\<forall>n c. env_handle env n c \<noteq> 0)"

lemma handles_nonnullD: "handles_nonnull env \<Longrightarrow> (env_handle env n c = 0) = False"
  by (simp add: handles_nonnull_def)

text \<open>The resources a context stands for, most recently opened first.\<close>

definition ctx_resources :: "sqmp_quic_ctx \<Rightarrow> quic_resource list" where
  "ctx_resources x = (if ctx_listener x = 0 then [] else [Listener (ctx_listener x)])
     @ (if ctx_config x = 0 then [] else [Configuration (ctx_config x)])
     @ (if ctx_reg x = 0 then [] else [Registration (ctx_reg x)]) @ [Library]"

definition ctx_owns :: "env \<Rightarrow> addr \<Rightarrow> 'a quic_state_scheme \<Rightarrow> bool" where
  "ctx_owns env ctx s \<longleftrightarrow> (\<exists>x. qs_ctxs s ctx = Some x \<and> resources_held env s = ctx_resources x)"

lemma sqmp_quic_init_owns:
  assumes "resources_held env s = []" and "handles_nonnull env"
  shows "case sqmp_quic_init env cfg s of
      (None, s') \<Rightarrow> resources_held env s' = []
    | (Some ctx, s') \<Rightarrow> ctx_owns env ctx s' \<and> (\<exists>x. qs_ctxs s' ctx = Some x \<and> ctx_config x = 0 \<and> ctx_listener x = 0)"
  using assms
  by (simp add: sqmp_quic_init_def alloc_def api_call_def api_open_def api_do_def Let_def
      ctx_owns_def ctx_resources_def resources_held_def held_append held_after_def handles_nonnullD)

lemma sqmp_quic_listen_owns:
  assumes "ctx_owns env ctx s" and "qs_ctxs s ctx = Some x" and "ctx_config x = 0" and "ctx_listener x = 0"
    and "handles_nonnull env"
  shows "\<exists>r s'. sqmp_quic_listen env ctx alpn port cert key s = Inr (r, s') \<and> ctx_owns env ctx s'"
  using assms
  by (simp add: sqmp_quic_listen_def api_call_def api_open_def Let_def
      ctx_owns_def ctx_resources_def resources_held_def held_append held_after_def handles_nonnullD)

lemma sqmp_quic_destroy_releases:
  assumes "ctx_owns env ctx s"
  shows "\<exists>s'. sqmp_quic_destroy (Some ctx) s = Inr s' \<and> resources_held env s' = [] \<and> qs_ctxs s' ctx = None"
  using assms
  by (auto simp: sqmp_quic_destroy_def api_do_def Let_def ctx_owns_def ctx_resources_def
      resources_held_def held_append held_after_def)

section \<open>Connecting\<close>

lemma sem_wait_conn_posted:
  assumes "qs_conns s c = Some v" and "0 < sem v"
  shows "sem_wait_conn env cfg sem upd c evs s = Inr (Some (evs, upd_conn c (upd (\<lambda>n. n - 1)) s))"
  using assms by (simp add: sem_wait_conn.simps)

lemma sem_wait_conn_blocked:
  assumes "qs_conns s c = Some v" and "sem v = 0"
  shows "sem_wait_conn env cfg sem upd c (e # evs) s = bindr (conn_cb env cfg c e s) (sem_wait_conn env cfg sem upd c evs)"
    and "sem_wait_conn env cfg sem upd c [] s = Inr None"
  using assms by (simp_all add: sem_wait_conn.simps)

text \<open>Events of a connection that is being set up which \<open>conn_cb\<close> ignores.\<close>

definition ignored :: "quic_connection_event \<Rightarrow> bool" where
  "ignored e \<longleftrightarrow> e = CONN_OTHER \<or> e = SHUTDOWN_INITIATED_BY_PEER"

lemma conn_cb_ignored:
  "ignored e \<Longrightarrow> conn_chain s (Some c) = Inr (v, x) \<Longrightarrow> conn_cb env cfg c e s = Inr s"
  by (auto simp: ignored_def conn_cb_def)

lemma sem_wait_conn_ignored:
  assumes "\<And>e. e \<in> set ns \<Longrightarrow> ignored e" and "conn_chain s (Some c) = Inr (v, x)" and "sem v = 0"
  shows "sem_wait_conn env cfg sem upd c (ns @ evs) s = sem_wait_conn env cfg sem upd c evs s"
proof -
  have "qs_conns s c = Some v" using assms(2) by (auto simp: conn_chain_def bindr_eq_Inr_iff deref_eq_Inr_iff)
  with assms show ?thesis
    by (induction ns) (simp_all add: sem_wait_conn_blocked conn_cb_ignored [OF _ assms(2)])
qed

text \<open>A connection object as \<^verbatim>\<open>sqmp_quic_connect\<close> creates it.\<close>

definition client_conn :: "HQUIC \<Rightarrow> addr \<Rightarrow> sqmp_conn" where
  "client_conn h ctx = \<lparr>conn_handle = h, conn_ctx = ctx, conn_connect_sem = 0, conn_closed_sem = 0,
     conn_connected = False, conn_is_server = False, conn_user_data = None\<rparr>"

lemma sqmp_quic_connect_waits:
  assumes "qs_ctxs s ctx = Some x" and "\<And>n. env_malloc env n" and "\<And>n c. \<not> QUIC_FAILED (env_status env n c)"
  shows "\<exists>s1 h y. (\<forall>evs. sqmp_quic_connect env cfg ctx alpn host port evs s
           = connect_wait env cfg (Suc (qs_allocs s)) evs s1)
         \<and> qs_conns s1 = (qs_conns s)(Suc (qs_allocs s) \<mapsto> client_conn h ctx) \<and> qs_ctxs s1 ctx = Some y"
  using assms
  by (simp add: sqmp_quic_connect_def alloc_def api_call_def api_open_def Let_def client_conn_def)
     (rule exI, rule conjI, rule allI, rule refl, auto)

lemma connect_wait_connected:
  assumes "qs_conns s conn = Some (client_conn h ctx)" and "qs_ctxs s ctx = Some y"
    and "\<And>e. e \<in> set ns \<Longrightarrow> ignored e"
    and "call_opt (cfg_on_connected cfg) conn (upd_conn conn (conn_connected_update (\<lambda>_. True)) s) = Inr t"
    and "qs_conns t conn = Some v" and "conn_connected v" 
  shows "connect_wait env cfg conn (ns @ CONNECTED # evs) s
     = Inr (Some (Some conn, evs, t))"
proof -
  have chain: "conn_chain s (Some conn) = Inr (client_conn h ctx, y)"
    using assms(1,2) by (simp add: conn_chain_def client_conn_def)
  have cb: "conn_cb env cfg conn CONNECTED s = Inr (upd_conn conn (conn_connect_sem_update Suc) t)"
    using chain assms(4) by (simp add: conn_cb_def)
  have "sem_wait_conn env cfg conn_connect_sem conn_connect_sem_update conn (ns @ CONNECTED # evs) s
      = Inr (Some (evs, upd_conn conn (conn_connect_sem_update (\<lambda>n. n - 1)) (upd_conn conn (conn_connect_sem_update Suc) t)))"
    using assms cb chain
    by (simp add: sem_wait_conn_ignored [OF assms(3) chain] sem_wait_conn_blocked client_conn_def
        sem_wait_conn_posted [where v = "conn_connect_sem_update Suc v"] upd_conn_def)
  then show ?thesis
    using assms(5,6) by (cases v) (simp add: connect_wait_def upd_conn_def comp_def fun_upd_idem)
qed

lemma connect_wait_refused:
  assumes "qs_conns s conn = Some (client_conn h ctx)" and "qs_ctxs s ctx = Some y"
    and "\<And>e. e \<in> set ns \<Longrightarrow> ignored e" and "\<And>e. e \<in> set ns' \<Longrightarrow> ignored e"
  shows "connect_wait env cfg conn (ns @ SHUTDOWN_INITIATED_BY_TRANSPORT # ns' @ CONN_SHUTDOWN_COMPLETE # evs) s
     = Inr (Some (None, evs, (api_do (ConnectionClose h) s)\<lparr>qs_conns := (qs_conns s)(conn := None)\<rparr>))"
proof -
  let ?c = "client_conn h ctx"
  have chain: "conn_chain s (Some conn) = Inr (?c, y)"
    using assms(1,2) by (simp add: conn_chain_def client_conn_def)
  let ?s1 = "upd_conn conn (conn_connect_sem_update Suc) s"
  have cb: "conn_cb env cfg conn SHUTDOWN_INITIATED_BY_TRANSPORT s = Inr ?s1"
    using chain by (simp add: conn_cb_def client_conn_def)
  let ?s2 = "upd_conn conn (conn_connect_sem_update (\<lambda>n. n - 1)) ?s1"
  have wait1: "sem_wait_conn env cfg conn_connect_sem conn_connect_sem_update conn
      (ns @ SHUTDOWN_INITIATED_BY_TRANSPORT # r) s = Inr (Some (r, ?s2))" for r
    using assms cb
    by (simp add: sem_wait_conn_ignored [OF assms(3) chain] sem_wait_conn_blocked client_conn_def
        sem_wait_conn_posted [where v = "conn_connect_sem_update Suc ?c"] upd_conn_def)
  have s2: "?s2 = s" using assms(1) by (simp add: upd_conn_def fun_upd_idem client_conn_def)
  let ?s3 = "upd_conn conn (conn_closed_sem_update Suc) s"
  have cb2: "conn_cb env cfg conn CONN_SHUTDOWN_COMPLETE s = Inr ?s3"
    using chain by (simp add: conn_cb_def client_conn_def)
  have wait2: "sem_wait_conn env cfg conn_closed_sem conn_closed_sem_update conn
      (ns' @ CONN_SHUTDOWN_COMPLETE # evs) s
      = Inr (Some (evs, upd_conn conn (conn_closed_sem_update (\<lambda>n. n - 1)) ?s3))"
    using assms cb2
    by (simp add: sem_wait_conn_ignored [OF assms(4) chain] sem_wait_conn_blocked client_conn_def
        sem_wait_conn_posted [where v = "conn_closed_sem_update Suc ?c"] upd_conn_def)
  show ?thesis
    unfolding connect_wait_def wait1 s2 using assms(1)
    by (simp add: wait2 client_conn_def upd_conn_def api_do_def)
qed

lemma connect_wait_stuck:
  assumes "qs_conns s conn = Some (client_conn h ctx)" and "qs_ctxs s ctx = Some y"
    and "\<And>e. e \<in> set ns \<Longrightarrow> ignored e" and "\<And>e. e \<in> set ns' \<Longrightarrow> ignored e"
  shows "connect_wait env cfg conn (ns @ CONN_SHUTDOWN_COMPLETE # ns') s = Inr None"
proof -
  let ?c = "client_conn h ctx" and ?s1 = "upd_conn conn (conn_closed_sem_update Suc) s"
  have chain: "conn_chain s (Some conn) = Inr (?c, y)"
    using assms(1,2) by (simp add: conn_chain_def client_conn_def)
  have cb: "conn_cb env cfg conn CONN_SHUTDOWN_COMPLETE s = Inr ?s1"
    using chain by (simp add: conn_cb_def client_conn_def)
  have chain1: "conn_chain ?s1 (Some conn) = Inr (conn_closed_sem_update Suc ?c, y)"
    using assms(1,2) by (simp add: conn_chain_def client_conn_def upd_conn_def)
  have "sem_wait_conn env cfg conn_connect_sem conn_connect_sem_update conn ns' ?s1 = Inr None"
    using sem_wait_conn_ignored [OF assms(4) chain1, where evs = "[]"] assms(1)
    by (simp add: client_conn_def sem_wait_conn_blocked(2) [where v = "conn_closed_sem_update Suc ?c"] upd_conn_def)
  then show ?thesis
    using assms cb
    by (simp add: connect_wait_def sem_wait_conn_ignored [OF assms(3) chain] sem_wait_conn_blocked client_conn_def)
qed

section \<open>Properties\<close>

text \<open>A library whose calls all succeed, and a state with one context, connection and stream, for
  the concrete instances below.\<close>

definition env_ok :: env where
  "env_ok = \<lparr>env_malloc = (\<lambda>n. True), env_junk = (\<lambda>a i. 0xAA), env_status = (\<lambda>n c. 0),
     env_handle = (\<lambda>n c. Suc n)\<rparr>"

definition one_stream :: quic_state where
  "one_stream = \<lparr>qs_ctxs = [1 \<mapsto> \<lparr>ctx_reg = 1, ctx_config = 2, ctx_listener = 3, ctx_idle_timeout_ms = 0\<rparr>],
     qs_conns = [2 \<mapsto> \<lparr>conn_handle = 7, conn_ctx = 1, conn_connect_sem = 0, conn_closed_sem = 0,
       conn_connected = True, conn_is_server = True, conn_user_data = None\<rparr>],
     qs_streams = [3 \<mapsto> \<lparr>stream_handle = 9, stream_conn = 2, stream_user_data = None\<rparr>],
     qs_sendbufs = Map.empty, qs_allocs = 10, qs_calls = []\<rparr>"

lemma env_ok_simps [simp]:
  "env_malloc env_ok n" "env_status env_ok n c = 0" "env_handle env_ok n c = Suc n"
  by (simp_all add: env_ok_def)

lemma not_failed_0 [simp]: "\<not> QUIC_FAILED 0"
  by (simp add: QUIC_FAILED_def)

lemma one_stream_chain [simp]: "\<exists>x c q. stream_chain one_stream (Some 3) = Inr (x, c, q) \<and> stream_handle x = 9"
  by (simp add: one_stream_def stream_chain_def)

text \<open>C16: a \<^verbatim>\<open>RECEIVE\<close> event reaches the application as one contiguous buffer. The buffers of the
  event, however MsQuic split the data, are delivered to \<^verbatim>\<open>on_stream_recv\<close> concatenated, in order,
  with the right length and followed by the terminating zero byte, whatever the fresh memory held.\<close>

theorem receive_delivers_contiguous_data:
  assumes "stream_chain s (Some st) = Inr chain" and "env_malloc env (qs_allocs s)"
    and "cfg_on_stream_recv cfg = Some recv"
    and "unat total_len = length (concat bufs)" and "length (concat bufs) < 2 ^ 64 - 1"
  shows "stream_cb env cfg st (STREAM_RECEIVE total_len bufs) s
           = recv st (concat bufs @ [0]) (length (concat bufs)) (s\<lparr>qs_allocs := Suc (qs_allocs s)\<rparr>)"
  using assms by (cases chain) (simp add: stream_cb_def stream_receive_flat)

definition recording_cfg :: "quic_state sqmp_quic_config" where
  "recording_cfg = \<lparr>cfg_app_name = None, cfg_idle_timeout_ms = 0, cfg_on_connected = None,
     cfg_on_disconnected = None, cfg_on_stream_open = None,
     cfg_on_stream_recv = Some (\<lambda>st d n s. Inr (s\<lparr>qs_sendbufs := (qs_sendbufs s)(st \<mapsto> take n d)\<rparr>)),
     cfg_on_stream_peer_send_done = None, cfg_on_stream_closed = None\<rparr>"

theorem receive_delivers_contiguous_data_witness:
  "stream_cb env_ok recording_cfg 3 (STREAM_RECEIVE 5 [[1, 2], [], [3, 4, 5]]) one_stream
     = Inr (one_stream\<lparr>qs_allocs := 11, qs_sendbufs := [3 \<mapsto> [1, 2, 3, 4, 5]]\<rparr>)"
proof -
  obtain x c q where "stream_chain one_stream (Some 3) = Inr (x, c, q)" by (metis one_stream_chain)
  from receive_delivers_contiguous_data [OF this, of env_ok recording_cfg _ 5 "[[1, 2], [], [3, 4, 5]]"]
  show ?thesis by (simp add: recording_cfg_def one_stream_def)
qed

text \<open>C17: the life cycle of a send buffer. When memory and MsQuic accept a send, one
  \<^verbatim>\<open>StreamSend\<close> call carries the data (its length modulo 2 to the 32, because of the cast), the buffer
  stays allocated until the \<^verbatim>\<open>SEND_COMPLETE\<close> event for it, that event frees it, and a second
  \<^verbatim>\<open>SEND_COMPLETE\<close> would be a double free. When MsQuic refuses, the caller gets -1 and no buffer
  is left behind; without memory the caller gets -1 and no call is made.\<close>

theorem send_buffer_life_cycle:
  fixes data :: bytes
  assumes chain: "stream_chain s (Some st) = Inr (x, c, q)"
    and fresh: "qs_sendbufs s (Suc (qs_allocs s)) = None"
  defines "sb \<equiv> Suc (qs_allocs s)"
  defines "call \<equiv> StreamSend (stream_handle x) (take (length data mod 2 ^ 32) data) sb"
  shows "case sqmp_stream_send env (Some st) data (length data) s of
      Inl e \<Rightarrow> False
    | Inr (r, s') \<Rightarrow>
        if \<not> env_malloc env (qs_allocs s) then r = -1 \<and> qs_calls s' = qs_calls s \<and> qs_sendbufs s' = qs_sendbufs s
        else qs_calls s' = qs_calls s @ [call] \<and>
          (if QUIC_FAILED (env_status env (length (qs_calls s)) call)
           then r = -1 \<and> qs_sendbufs s' = qs_sendbufs s
           else r = 0 \<and> qs_sendbufs s' = (qs_sendbufs s)(sb \<mapsto> data) \<and>
             (\<exists>s''. stream_cb env cfg st (SEND_COMPLETE sb) s' = Inr s'' \<and> qs_sendbufs s'' = qs_sendbufs s
               \<and> stream_cb env cfg st (SEND_COMPLETE sb) s'' = Inl UseAfterFree))"
proof (cases "env_malloc env (qs_allocs s)")
  case False
  then show ?thesis by (simp add: sqmp_stream_send_def alloc_def)
next
  case True
  have chain': "stream_chain (s\<lparr>qs_allocs := n, qs_calls := k, qs_sendbufs := b\<rparr>) (Some st) = Inr (x, c, q)"
    "stream_chain (s\<lparr>qs_allocs := n, qs_calls := k\<rparr>) (Some st) = Inr (x, c, q)" for n k b
    using chain by (simp_all add: stream_chain_def)
  show ?thesis
    using True fresh
    by (simp add: sqmp_stream_send_eq [OF chain True] Let_def stream_cb_def chain' sb_def call_def
        fun_upd_idem)
qed

theorem send_buffer_life_cycle_witness:
  "\<exists>s'. sqmp_stream_send env_ok (Some 3) [0x41, 0x42] (length [0x41, 0x42 :: u8]) one_stream = Inr (0, s')
     \<and> qs_calls s' = [StreamSend 9 [0x41, 0x42] 11] \<and> qs_sendbufs s' = [11 \<mapsto> [0x41, 0x42]]"
proof -
  obtain x c q where "stream_chain one_stream (Some 3) = Inr (x, c, q)" "stream_handle x = 9"
    by (metis one_stream_chain)
  with send_buffer_life_cycle [OF this(1), where data = "[0x41, 0x42]" and env = env_ok and cfg = recording_cfg]
  show ?thesis by (auto simp: one_stream_def split: sum.splits)
qed

text \<open>C18: a server context leaks nothing. Whatever MsQuic answers and wherever \<^verbatim>\<open>sqmp_quic_init\<close>
  or \<^verbatim>\<open>sqmp_quic_listen\<close> stop, a failed \<^verbatim>\<open>sqmp_quic_init\<close> holds nothing, and after a successful one
  \<^verbatim>\<open>sqmp_quic_listen\<close> followed by \<^verbatim>\<open>sqmp_quic_destroy\<close> runs without a fault, closes the library
  reference and every registration, configuration and listener handle, and frees the context.
  MsQuic is assumed to return non-null handles when an open call succeeds.\<close>

theorem quic_context_releases_everything:
  assumes "resources_held env s = []" and "handles_nonnull env"
  shows "case sqmp_quic_init env cfg s of
      (None, s1) \<Rightarrow> resources_held env s1 = []
    | (Some ctx, s1) \<Rightarrow> \<exists>r s2 s3. sqmp_quic_listen env ctx alpn port cert key s1 = Inr (r, s2)
        \<and> sqmp_quic_destroy (Some ctx) s2 = Inr s3 \<and> resources_held env s3 = [] \<and> qs_ctxs s3 ctx = None"
proof -
  obtain r s1 where init: "sqmp_quic_init env cfg s = (r, s1)" by (cases "sqmp_quic_init env cfg s")
  show ?thesis
  proof (cases r)
    case None
    then show ?thesis using sqmp_quic_init_owns [OF assms, of cfg] init by simp
  next
    case (Some ctx)
    then obtain x where "ctx_owns env ctx s1" "qs_ctxs s1 ctx = Some x" "ctx_config x = 0" "ctx_listener x = 0"
      using sqmp_quic_init_owns [OF assms, of cfg] init by auto
    from sqmp_quic_listen_owns [OF this assms(2)] obtain r' s2 where
      "sqmp_quic_listen env ctx alpn port cert key s1 = Inr (r', s2)" "ctx_owns env ctx s2" by blast
    then show ?thesis using sqmp_quic_destroy_releases Some init by fastforce
  qed
qed

definition quic_start :: quic_state where
  "quic_start = \<lparr>qs_ctxs = Map.empty, qs_conns = Map.empty, qs_streams = Map.empty,
     qs_sendbufs = Map.empty, qs_allocs = 0, qs_calls = []\<rparr>"

theorem quic_context_releases_everything_witness:
  "\<exists>s1 r s2 s3. sqmp_quic_init env_ok recording_cfg quic_start = (Some 1, s1)
     \<and> sqmp_quic_listen env_ok 1 [] 4433 [] [] s1 = Inr (r, s2)
     \<and> sqmp_quic_destroy (Some 1) s2 = Inr s3 \<and> resources_held env_ok s3 = []"
proof -
  have "resources_held env_ok quic_start = []" "handles_nonnull env_ok"
    by (simp_all add: resources_held_def quic_start_def handles_nonnull_def)
  from quic_context_releases_everything [OF this, where cfg = recording_cfg and alpn = "[]" and port = 4433
      and cert = "[]" and key = "[]"]
  show ?thesis
    by (auto simp: sqmp_quic_init_def alloc_def api_call_def api_open_def recording_cfg_def quic_start_def Let_def)
qed

text \<open>C19: how \<^verbatim>\<open>sqmp_quic_connect\<close> ends, when its API calls succeed. The \<^verbatim>\<open>CONNECTED\<close> event makes
  it return the new connection, marked connected. A transport shutdown before that, followed by
  \<^verbatim>\<open>SHUTDOWN_COMPLETE\<close>, makes it return \<^verbatim>\<open>NULL\<close> with the connection closed and freed. But when the
  connection is shut down without either (the peer's shutdown event alone is ignored), nothing
  posts \<^verbatim>\<open>connect_sem\<close> and the call never returns.\<close>

theorem quic_connect_outcomes:
  fixes s :: "'a quic_state_scheme" and alpn host :: bytes and port :: u16
  assumes "qs_ctxs s ctx = Some x" and "\<And>n. env_malloc env n"
    and "\<And>n c. \<not> QUIC_FAILED (env_status env n c)" and "qs_conns s (Suc (qs_allocs s)) = None"
    and "\<And>e. e \<in> set ns \<Longrightarrow> ignored e" and "\<And>e. e \<in> set ns' \<Longrightarrow> ignored e"
    and on_connected: "\<And>t :: 'a quic_state_scheme. \<exists>t'. call_opt (cfg_on_connected cfg) (Suc (qs_allocs s)) t = Inr t' \<and> qs_conns t' = qs_conns t"
  defines "connect \<equiv> (\<lambda>evs. sqmp_quic_connect env cfg ctx alpn host port evs s)"
  shows "(\<exists>s' c. connect (ns @ CONNECTED # rest) = Inr (Some (Some (Suc (qs_allocs s)), rest, s'))
            \<and> qs_conns s' (Suc (qs_allocs s)) = Some c \<and> conn_connected c)
    \<and> (\<exists>s' h. connect (ns @ SHUTDOWN_INITIATED_BY_TRANSPORT # ns' @ CONN_SHUTDOWN_COMPLETE # rest)
                = Inr (Some (None, rest, s')) \<and> qs_conns s' = qs_conns s
            \<and> last (qs_calls s') = ConnectionClose h)
    \<and> connect (ns @ CONN_SHUTDOWN_COMPLETE # ns') = Inr None"
proof -
  let ?conn = "Suc (qs_allocs s)"
  obtain s1 h y where c: "\<And>evs. connect evs = connect_wait env cfg ?conn evs s1"
    and conns: "qs_conns s1 = (qs_conns s)(?conn \<mapsto> client_conn h ctx)" and ctx: "qs_ctxs s1 ctx = Some y"
    using sqmp_quic_connect_waits [OF assms(1-3)] unfolding connect_def by blast
  have conn1: "qs_conns s1 ?conn = Some (client_conn h ctx)" by (simp add: conns)
  obtain t where t: "call_opt (cfg_on_connected cfg) ?conn (upd_conn ?conn (conn_connected_update (\<lambda>_. True)) s1) = Inr t"
    and tc: "qs_conns t = qs_conns (upd_conn ?conn (conn_connected_update (\<lambda>_. True)) s1)"
    using on_connected by blast
  have v: "qs_conns t ?conn = Some (client_conn h ctx\<lparr>conn_connected := True\<rparr>)"
    by (simp add: tc upd_conn_def conn1)
  have "connect (ns @ CONNECTED # rest) = Inr (Some (Some ?conn, rest, t))"
    unfolding c by (rule connect_wait_connected [OF conn1 ctx assms(5) t v]) simp_all
  moreover have "qs_conns s = (qs_conns s1)(?conn := None)" using assms(4) by (simp add: conns fun_upd_idem)
  ultimately show ?thesis
    using v connect_wait_refused [OF conn1 ctx assms(5,6)] connect_wait_stuck [OF conn1 ctx assms(5,6)]
    by (simp add: c api_do_def)
qed

theorem quic_connect_outcomes_witness:
  "(\<exists>s' c. sqmp_quic_connect env_ok recording_cfg 1 [] [] 4433 [CONN_OTHER, CONNECTED] one_stream
      = Inr (Some (Some 11, [], s')) \<and> qs_conns s' 11 = Some c \<and> conn_connected c)
   \<and> sqmp_quic_connect env_ok recording_cfg 1 [] [] 4433 [CONN_OTHER, CONN_SHUTDOWN_COMPLETE] one_stream = Inr None"
proof -
  have "\<exists>x. qs_ctxs one_stream 1 = Some x" by (simp add: one_stream_def)
  then obtain x where x: "qs_ctxs one_stream 1 = Some x" ..
  show ?thesis
    using quic_connect_outcomes [OF x, of env_ok "[CONN_OTHER]" "[]" recording_cfg "[]" "[]" 4433 "[]"]
    by (simp add: one_stream_def ignored_def call_opt_def recording_cfg_def)
qed

end
