(* ===== verification/Sqmp_Session.thy ===== *)
theory Sqmp_Session
  imports Sqmp_Registry Quic_Wrapper
begin

text \<open>
  The session object of \<^verbatim>\<open>include/sqmp.h\<close> and the state of a process that links
  \<^verbatim>\<open>src/shared/sqmp.c\<close>: the wrapper's state extended with the heap of sessions and the globals of
  \<^verbatim>\<open>sqmp.c\<close> (session-id counter, authentication queue, registry). \<open>console\<close> is what the process
  prints, one entry per \<^verbatim>\<open>printf\<close> or \<^verbatim>\<open>fprintf(stderr, ...)\<close> call that a theorem talks about.
\<close>

record sqmp_session =
  s_state :: sqmp_session_state
  s_session_id :: u32
  s_username_len :: u8
  s_username :: bytes
  s_login_ready :: nat
  s_auth_done :: nat
  s_auth_ok :: bool
  s_client_pubkey :: bytes
  s_client_privkey :: bytes
  s_auth_stream :: "addr option"
  s_auth_queued :: bool
  s_conn_closed :: bool
  s_auth_username_len :: u8
  s_auth_username :: bytes
  s_auth_password_hash :: bytes
  s_auth_pubkey :: bytes
  s_key_fetch_sem :: nat
  s_key_fetch_result :: bytes
  s_next :: "addr option"

text \<open>A zeroed session, as \<^verbatim>\<open>calloc\<close> or \<^verbatim>\<open>= {0}\<close> leaves it, in state \<^verbatim>\<open>HELLO\<close>.\<close>

definition new_session :: sqmp_session where
  "new_session = \<lparr>s_state = SQMP_SESSION_STATE_HELLO, s_session_id = 0, s_username_len = 0,
     s_username = zeros SQMP_USERNAME_MAX_LEN, s_login_ready = 0, s_auth_done = 0, s_auth_ok = False,
     s_client_pubkey = zeros 32, s_client_privkey = zeros 32, s_auth_stream = None,
     s_auth_queued = False, s_conn_closed = False, s_auth_username_len = 0,
     s_auth_username = zeros SQMP_USERNAME_MAX_LEN, s_auth_password_hash = zeros SQMP_PASSWORD_HASH_LEN,
     s_auth_pubkey = zeros 32, s_key_fetch_sem = 0, s_key_fetch_result = zeros 32, s_next = None\<rparr>"

record sqmp_state = quic_state +
  sessions :: "addr \<rightharpoonup> sqmp_session"
  g_next_session_id :: u32
  g_auth_queue_sem :: nat
  g_auth_queue_head :: "addr option"
  g_auth_queue_tail :: "addr option"
  g_registry :: registry
  console :: "bytes list"

definition get_session :: "'a sqmp_state_scheme \<Rightarrow> addr option \<Rightarrow> fault + sqmp_session" where
  "get_session p ptr = deref (sessions p) ptr"

definition put_session :: "addr \<Rightarrow> sqmp_session \<Rightarrow> 'a sqmp_state_scheme \<Rightarrow> 'a sqmp_state_scheme" where
  "put_session a v p = p\<lparr>sessions := (sessions p)(a \<mapsto> v)\<rparr>"

definition out :: "bytes \<Rightarrow> 'a sqmp_state_scheme \<Rightarrow> 'a sqmp_state_scheme" where
  "out msg p = p\<lparr>console := console p @ [msg]\<rparr>"

text \<open>The array members of a session have their declared lengths, and the stored user name fits
  its array.\<close>

definition wf_session :: "sqmp_session \<Rightarrow> bool" where
  "wf_session v \<longleftrightarrow> length (s_username v) = 32 \<and> unat (s_username_len v) \<le> 32
     \<and> length (s_client_pubkey v) = 32 \<and> length (s_client_privkey v) = 32
     \<and> length (s_auth_username v) = 32 \<and> unat (s_auth_username_len v) \<le> 32
     \<and> length (s_auth_password_hash v) = 32 \<and> length (s_auth_pubkey v) = 32
     \<and> length (s_key_fetch_result v) = 32"

definition s_name :: "sqmp_session \<Rightarrow> bytes" where
  "s_name v = take (unat (s_username_len v)) (s_username v)"

definition s_auth_name :: "sqmp_session \<Rightarrow> bytes" where
  "s_auth_name v = take (unat (s_auth_username_len v)) (s_auth_username v)"

lemma wf_new_session [simp]: "wf_session new_session"
  by (simp add: wf_session_def new_session_def)

lemma get_session_simps [simp]:
  "get_session p None = Inl NullDeref"
  "sessions p a = Some v \<Longrightarrow> get_session p (Some a) = Inr v"
  "sessions p a = None \<Longrightarrow> get_session p (Some a) = Inl UseAfterFree"
  by (simp_all add: get_session_def)

lemma get_session_eq_Inr_iff [fault_simps]:
  "get_session p ptr = Inr v \<longleftrightarrow> (\<exists>a. ptr = Some a \<and> sessions p a = Some v)"
  by (simp add: get_session_def deref_eq_Inr_iff)

lemma put_session_simps [simp]:
  "sessions (put_session a v p) = (sessions p)(a \<mapsto> v)"
  "qs_ctxs (put_session a v p) = qs_ctxs p" "qs_conns (put_session a v p) = qs_conns p"
  "qs_streams (put_session a v p) = qs_streams p" "qs_sendbufs (put_session a v p) = qs_sendbufs p"
  "qs_allocs (put_session a v p) = qs_allocs p" "qs_calls (put_session a v p) = qs_calls p"
  "g_next_session_id (put_session a v p) = g_next_session_id p"
  "g_auth_queue_sem (put_session a v p) = g_auth_queue_sem p"
  "g_auth_queue_head (put_session a v p) = g_auth_queue_head p"
  "g_auth_queue_tail (put_session a v p) = g_auth_queue_tail p"
  "g_registry (put_session a v p) = g_registry p" "console (put_session a v p) = console p"
  by (simp_all add: put_session_def)

lemma out_simps [simp]:
  "sessions (out m p) = sessions p" "console (out m p) = console p @ [m]"
  "qs_ctxs (out m p) = qs_ctxs p" "qs_conns (out m p) = qs_conns p"
  "qs_streams (out m p) = qs_streams p" "qs_sendbufs (out m p) = qs_sendbufs p"
  "qs_allocs (out m p) = qs_allocs p" "qs_calls (out m p) = qs_calls p"
  "g_next_session_id (out m p) = g_next_session_id p"
  "g_auth_queue_sem (out m p) = g_auth_queue_sem p"
  "g_auth_queue_head (out m p) = g_auth_queue_head p"
  "g_auth_queue_tail (out m p) = g_auth_queue_tail p" "g_registry (out m p) = g_registry p"
  by (simp_all add: out_def)

end
