(* ===== verification/Sqmp_Auth_Queue.thy ===== *)
theory Sqmp_Auth_Queue
  imports Sqmp_Session
begin

text \<open>
  The authentication queue of \<^verbatim>\<open>src/shared/sqmp.c\<close>: sessions linked through their \<^verbatim>\<open>next\<close> member
  between \<^verbatim>\<open>g_auth_queue_head\<close> and \<^verbatim>\<open>g_auth_queue_tail\<close>, with a counting semaphore for the waiting
  thread. \<open>fifo\<close> is the contract of a queue; the linked list implements it for sessions that are
  not queued yet. Queuing a session twice breaks the list, which the last theorems show.
\<close>

section \<open>Operations\<close>

definition sqmp_auth_queue_init :: "'a sqmp_state_scheme \<Rightarrow> 'a sqmp_state_scheme" where
  "sqmp_auth_queue_init p = p\<lparr>g_auth_queue_sem := 0\<rparr>"

text \<open>The part of \<^verbatim>\<open>sqmp_auth_queue_dequeue\<close> between lock and unlock.\<close>

definition auth_queue_take :: "'a sqmp_state_scheme \<Rightarrow> fault + addr option \<times> 'a sqmp_state_scheme" where
  "auth_queue_take p = (case g_auth_queue_head p of
       None \<Rightarrow> Inr (None, p)
     | Some a \<Rightarrow>
         bindr (get_session p (Some a)) (\<lambda>v.
         let p1 = p\<lparr>g_auth_queue_head := s_next v\<rparr>;
             p2 = (if g_auth_queue_head p1 = None then p1\<lparr>g_auth_queue_tail := None\<rparr> else p1)
         in Inr (Some a, put_session a (v\<lparr>s_next := None\<rparr>) p2)))"

text \<open>\<^verbatim>\<open>sem_wait\<close> blocks while the count is 0 (\<open>None\<close>); a signal makes it fail, and then the
  function returns \<^verbatim>\<open>NULL\<close>.\<close>

definition sqmp_auth_queue_dequeue ::
  "bool \<Rightarrow> 'a sqmp_state_scheme \<Rightarrow> (fault + addr option \<times> 'a sqmp_state_scheme) option" where
  "sqmp_auth_queue_dequeue interrupted p =
     (if interrupted then Some (Inr (None, p))
      else if g_auth_queue_sem p = 0 then None
      else Some (auth_queue_take (p\<lparr>g_auth_queue_sem := g_auth_queue_sem p - 1\<rparr>)))"

definition auth_queue_enqueue :: "addr \<Rightarrow> 'a sqmp_state_scheme \<Rightarrow> fault + 'a sqmp_state_scheme" where
  "auth_queue_enqueue a p =
     bindr (get_session p (Some a)) (\<lambda>v.
     let p1 = put_session a (v\<lparr>s_next := None\<rparr>) p in
     bindr (case g_auth_queue_tail p1 of
         None \<Rightarrow> Inr (p1\<lparr>g_auth_queue_head := Some a, g_auth_queue_tail := Some a\<rparr>)
       | Some t \<Rightarrow>
           bindr (get_session p1 (Some t)) (\<lambda>tv.
             Inr ((put_session t (tv\<lparr>s_next := Some a\<rparr>) p1)\<lparr>g_auth_queue_tail := Some a\<rparr>))) (\<lambda>p2.
     Inr (p2\<lparr>g_auth_queue_sem := Suc (g_auth_queue_sem p2)\<rparr>)))"

section \<open>The linked list as a list of sessions\<close>

text \<open>\<open>linked h ptr as\<close>: following \<^verbatim>\<open>next\<close> from \<open>ptr\<close> visits exactly the sessions \<open>as\<close> and ends
  in \<^verbatim>\<open>NULL\<close>.\<close>

primrec linked :: "(addr \<rightharpoonup> sqmp_session) \<Rightarrow> addr option \<Rightarrow> addr list \<Rightarrow> bool" where
  "linked h ptr [] \<longleftrightarrow> ptr = None"
| "linked h ptr (a # as) \<longleftrightarrow> ptr = Some a \<and> (\<exists>v. h a = Some v \<and> linked h (s_next v) as)"

definition queue_repr :: "'a sqmp_state_scheme \<Rightarrow> addr list \<Rightarrow> bool" where
  "queue_repr p as \<longleftrightarrow> linked (sessions p) (g_auth_queue_head p) as \<and> distinct as
     \<and> g_auth_queue_tail p = (if as = [] then None else Some (last as))"

lemma linked_cong:
  assumes "\<And>a. a \<in> set as \<Longrightarrow> map_option s_next (h a) = map_option s_next (h' a)"
  shows "linked h ptr as \<longleftrightarrow> linked h' ptr as"
  using assms
proof (induction as arbitrary: ptr)
  case Nil
  then show ?case by simp
next
  case (Cons a as)
  then have "map_option s_next (h a) = map_option s_next (h' a)" by simp
  moreover have "linked h q as \<longleftrightarrow> linked h' q as" for q using Cons by simp
  ultimately show ?case by (auto simp: map_option_case split: option.splits)
qed

lemma linked_update_other [simp]: "a \<notin> set as \<Longrightarrow> linked (h(a \<mapsto> v)) ptr as \<longleftrightarrow> linked h ptr as"
  by (rule linked_cong) auto

lemma linked_dom: "linked h ptr as \<Longrightarrow> a \<in> set as \<Longrightarrow> \<exists>v. h a = Some v"
  by (induction as arbitrary: ptr) auto

lemma linked_snoc:
  assumes "linked h ptr (as @ [t])" and "distinct (as @ [t])" and "a \<notin> set (as @ [t])"
    and "h t = Some tv" and "h a = Some v" and "s_next v = None"
  shows "linked (h(t \<mapsto> tv\<lparr>s_next := Some a\<rparr>)) ptr (as @ [t, a])"
  using assms by (induction as arbitrary: ptr) auto

text \<open>Every operation leaves the fields other than \<^verbatim>\<open>next\<close> of every session alone.\<close>

definition same_but_next :: "(addr \<rightharpoonup> sqmp_session) \<Rightarrow> (addr \<rightharpoonup> sqmp_session) \<Rightarrow> bool" where
  "same_but_next h h' \<longleftrightarrow>
     (\<forall>a. map_option (\<lambda>v. v\<lparr>s_next := None\<rparr>) (h a) = map_option (\<lambda>v. v\<lparr>s_next := None\<rparr>) (h' a))"

lemma same_but_next_refl [simp]: "same_but_next h h"
  by (simp add: same_but_next_def)

lemma same_but_next_trans:
  "same_but_next h h' \<Longrightarrow> same_but_next h' h'' \<Longrightarrow> same_but_next h h''"
  by (simp add: same_but_next_def)

lemma same_but_next_upd: "h a = Some v \<Longrightarrow> same_but_next h (h(a \<mapsto> v\<lparr>s_next := x\<rparr>))"
  by (auto simp: same_but_next_def)

lemma same_but_next_dom: "same_but_next h h' \<Longrightarrow> dom h = dom h'"
  by (auto simp: same_but_next_def dom_def) (metis option.map_disc_iff option.exhaust not_Some_eq)+

text \<open>The queue holds the sessions \<open>as\<close>, oldest first, and the semaphore counts them.\<close>

definition queue_inv :: "'a sqmp_state_scheme \<Rightarrow> addr list \<Rightarrow> bool" where
  "queue_inv p as \<longleftrightarrow> queue_repr p as \<and> g_auth_queue_sem p = length as"

text \<open>What a queue operation may change: the queue's globals and the \<^verbatim>\<open>next\<close> members.\<close>

definition queue_frame :: "'a sqmp_state_scheme \<Rightarrow> 'a sqmp_state_scheme \<Rightarrow> bool" where
  "queue_frame p p' \<longleftrightarrow> same_but_next (sessions p) (sessions p')
     \<and> p' = p\<lparr>sessions := sessions p', g_auth_queue_head := g_auth_queue_head p',
            g_auth_queue_tail := g_auth_queue_tail p', g_auth_queue_sem := g_auth_queue_sem p'\<rparr>"

lemma queue_frame_dom: "queue_frame p p' \<Longrightarrow> dom (sessions p') = dom (sessions p)"
  unfolding queue_frame_def by (blast dest: same_but_next_dom [symmetric])

lemma queue_frame_fields:
  assumes "queue_frame p p'"
  shows "g_registry p' = g_registry p" "g_next_session_id p' = g_next_session_id p" "console p' = console p"
    "qs_calls p' = qs_calls p" "qs_streams p' = qs_streams p" "qs_conns p' = qs_conns p" "qs_ctxs p' = qs_ctxs p"
    "qs_allocs p' = qs_allocs p" "qs_sendbufs p' = qs_sendbufs p" "sqmp_state.more p' = sqmp_state.more p"
proof -
  have eq: "p' = p\<lparr>sessions := sessions p', g_auth_queue_head := g_auth_queue_head p',
      g_auth_queue_tail := g_auth_queue_tail p', g_auth_queue_sem := g_auth_queue_sem p'\<rparr>"
    using assms by (simp add: queue_frame_def)
  show "g_registry p' = g_registry p" using arg_cong [OF eq, of g_registry] by simp
  show "g_next_session_id p' = g_next_session_id p" using arg_cong [OF eq, of g_next_session_id] by simp
  show "console p' = console p" using arg_cong [OF eq, of console] by simp
  show "qs_calls p' = qs_calls p" using arg_cong [OF eq, of qs_calls] by simp
  show "qs_streams p' = qs_streams p" using arg_cong [OF eq, of qs_streams] by simp
  show "qs_conns p' = qs_conns p" using arg_cong [OF eq, of qs_conns] by simp
  show "qs_ctxs p' = qs_ctxs p" using arg_cong [OF eq, of qs_ctxs] by simp
  show "qs_allocs p' = qs_allocs p" using arg_cong [OF eq, of qs_allocs] by simp
  show "qs_sendbufs p' = qs_sendbufs p" using arg_cong [OF eq, of qs_sendbufs] by simp
  show "sqmp_state.more p' = sqmp_state.more p" using arg_cong [OF eq, of sqmp_state.more] by simp
qed

lemma queue_frame_session:
  assumes "queue_frame p p'" and "sessions p a = Some v"
  obtains n where "sessions p' a = Some (v\<lparr>s_next := n\<rparr>)"
proof -
  have "map_option (\<lambda>v. v\<lparr>s_next := None\<rparr>) (sessions p a) = map_option (\<lambda>v. v\<lparr>s_next := None\<rparr>) (sessions p' a)"
    using assms(1) unfolding queue_frame_def same_but_next_def by blast
  then have "map_option (\<lambda>v. v\<lparr>s_next := None\<rparr>) (sessions p' a) = Some (v\<lparr>s_next := None\<rparr>)"
    using assms(2) by simp
  then obtain v' where v': "sessions p' a = Some v'" "v'\<lparr>s_next := None\<rparr> = v\<lparr>s_next := None\<rparr>" by auto
  then have "v' = v\<lparr>s_next := s_next v'\<rparr>" by (cases v; cases v') simp
  with v' that show thesis by metis
qed

lemma queue_inv_Nil [simp]:
  "queue_inv p [] \<longleftrightarrow> g_auth_queue_head p = None \<and> g_auth_queue_tail p = None \<and> g_auth_queue_sem p = 0"
  by (auto simp: queue_inv_def queue_repr_def)

lemma queue_inv_put_other: "a \<notin> set as \<Longrightarrow> queue_inv (put_session a v p) as \<longleftrightarrow> queue_inv p as"
  by (simp add: queue_inv_def queue_repr_def)

lemma queue_inv_put_same_next:
  assumes "sessions p a = Some v" and "s_next w = s_next v"
  shows "queue_inv (put_session a w p) as \<longleftrightarrow> queue_inv p as"
proof -
  have "linked ((sessions p)(a \<mapsto> w)) q as \<longleftrightarrow> linked (sessions p) q as" for q
    using assms by (intro linked_cong) auto
  then show ?thesis by (simp add: queue_inv_def queue_repr_def)
qed

lemma enqueue_spec:
  assumes inv: "queue_inv p as" and a: "sessions p a = Some v" "a \<notin> set as"
  shows "\<exists>p'. auth_queue_enqueue a p = Inr p' \<and> queue_inv p' (as @ [a]) \<and> queue_frame p p'"
proof (cases as rule: rev_cases)
  case Nil
  then show ?thesis using inv a
    by (auto simp: auth_queue_enqueue_def put_session_def queue_inv_def queue_repr_def queue_frame_def
        same_but_next_upd)
next
  case (snoc bs t)
  then obtain tv where t: "sessions p t = Some tv" "t \<noteq> a" "g_auth_queue_tail p = Some t"
    using inv a linked_dom [of "sessions p" "g_auth_queue_head p" as t]
    by (auto simp: queue_inv_def queue_repr_def)
  have "linked ((sessions p)(a \<mapsto> v\<lparr>s_next := None\<rparr>, t \<mapsto> tv\<lparr>s_next := Some a\<rparr>))
      (g_auth_queue_head p) (bs @ [t, a])"
    using inv a t snoc by (intro linked_snoc) (auto simp: queue_inv_def queue_repr_def)
  moreover have "same_but_next (sessions p)
      ((sessions p)(a \<mapsto> v\<lparr>s_next := None\<rparr>, t \<mapsto> tv\<lparr>s_next := Some a\<rparr>))"
    using a t by (intro same_but_next_trans [OF same_but_next_upd same_but_next_upd]) auto
  ultimately show ?thesis using inv a t snoc
    by (auto simp: auth_queue_enqueue_def put_session_def queue_inv_def queue_repr_def queue_frame_def)
qed

lemma dequeue_spec:
  assumes inv: "queue_inv p (a # as)"
  shows "\<exists>p'. sqmp_auth_queue_dequeue False p = Some (Inr (Some a, p')) \<and> queue_inv p' as
    \<and> queue_frame p p'"
proof -
  obtain v where v: "sessions p a = Some v" "linked (sessions p) (s_next v) as" "a \<notin> set as"
    "g_auth_queue_head p = Some a"
    using inv by (auto simp: queue_inv_def queue_repr_def)
  have "as = [] \<longleftrightarrow> s_next v = None" using v(2) by (cases as) auto
  with v inv show ?thesis
    by (auto simp: sqmp_auth_queue_dequeue_def auth_queue_take_def put_session_def queue_inv_def
        queue_repr_def queue_frame_def same_but_next_upd)
qed

lemma dequeue_empty_blocks: "queue_inv p [] \<Longrightarrow> sqmp_auth_queue_dequeue False p = None"
  by (simp add: sqmp_auth_queue_dequeue_def)

text \<open>Adding the head of the queue once more, with others behind it: they are cut off.\<close>

lemma double_enqueue_cut:
  assumes "queue_inv p (a # b # bs)"
  obtains p1 p2 where "auth_queue_enqueue a p = Inr p1" and "queue_frame p p1"
    and "sqmp_auth_queue_dequeue False p1 = Some (Inr (Some a, p2))" and "queue_frame p1 p2"
    and "g_auth_queue_head p2 = None" and "g_auth_queue_sem p2 = Suc (Suc (length bs))"
proof -
  let ?t = "last (b # bs)"
  obtain v where v: "sessions p a = Some v" "g_auth_queue_head p = Some a" "?t \<noteq> a"
      "g_auth_queue_tail p = Some ?t" "g_auth_queue_sem p = Suc (Suc (length bs))"
    using assms last_in_set [of "b # bs"] by (auto simp: queue_inv_def queue_repr_def)
  obtain tv where t: "sessions p ?t = Some tv"
    using assms linked_dom [of "sessions p" "g_auth_queue_head p" "a # b # bs" ?t]
      last_in_set [of "b # bs"] by (auto simp: queue_inv_def queue_repr_def)
  let ?h = "(sessions p)(a \<mapsto> v\<lparr>s_next := None\<rparr>, ?t \<mapsto> tv\<lparr>s_next := Some a\<rparr>)"
  have ht: "?h a = Some (v\<lparr>s_next := None\<rparr>)" using v(3) by (simp del: last.simps)
  have "same_but_next (sessions p) ?h"
    using v t by (intro same_but_next_trans [OF same_but_next_upd same_but_next_upd]) (auto simp del: last.simps)
  moreover have "same_but_next ?h (?h(a \<mapsto> v\<lparr>s_next := None\<rparr>))"
    by (metis fun_upd_triv ht same_but_next_refl)
  ultimately show thesis
    using v t that
    by (simp add: auth_queue_enqueue_def sqmp_auth_queue_dequeue_def auth_queue_take_def
        put_session_def Let_def queue_frame_def del: last.simps)
qed

section \<open>The linked list implements a FIFO queue\<close>

fun enq_all :: "('x \<Rightarrow> 's \<Rightarrow> fault + 's) \<Rightarrow> 'x list \<Rightarrow> 's \<Rightarrow> fault + 's" where
  "enq_all enq [] s = Inr s"
| "enq_all enq (x # xs) s = bindr (enq x s) (enq_all enq xs)"

text \<open>\<open>n\<close> dequeue operations in a row: \<open>None\<close> when one of them blocks, faults or returns \<^verbatim>\<open>NULL\<close>.\<close>

fun deq_n :: "('s \<Rightarrow> (fault + 'x option \<times> 's) option) \<Rightarrow> nat \<Rightarrow> 's \<Rightarrow> ('x list \<times> 's) option" where
  "deq_n deq 0 s = Some ([], s)"
| "deq_n deq (Suc n) s = (case deq s of
       Some (Inr (Some x, s')) \<Rightarrow> map_option (\<lambda>(xs, t). (x # xs, t)) (deq_n deq n s')
     | _ \<Rightarrow> None)"

locale fifo =
  fixes holds :: "'s \<Rightarrow> 'x list \<Rightarrow> bool"
    and allocated :: "'s \<Rightarrow> 'x set"
    and enq :: "'x \<Rightarrow> 's \<Rightarrow> fault + 's"
    and deq :: "'s \<Rightarrow> (fault + 'x option \<times> 's) option"
  assumes enq_holds: "holds s xs \<Longrightarrow> x \<in> allocated s \<Longrightarrow> x \<notin> set xs \<Longrightarrow>
      \<exists>s'. enq x s = Inr s' \<and> holds s' (xs @ [x]) \<and> allocated s' = allocated s"
    and deq_holds: "holds s (x # xs) \<Longrightarrow>
      \<exists>s'. deq s = Some (Inr (Some x, s')) \<and> holds s' xs \<and> allocated s' = allocated s"
    and deq_blocks: "holds s [] \<Longrightarrow> deq s = None"
begin

lemma enq_all_holds:
  assumes "holds s xs" and "set ys \<subseteq> allocated s" and "distinct ys" and "set ys \<inter> set xs = {}"
  shows "\<exists>s'. enq_all enq ys s = Inr s' \<and> holds s' (xs @ ys) \<and> allocated s' = allocated s"
  using assms
proof (induction ys arbitrary: s xs)
  case Nil
  then show ?case by simp
next
  case (Cons y ys)
  then obtain s1 where s1: "enq y s = Inr s1" "holds s1 (xs @ [y])" "allocated s1 = allocated s"
    using enq_holds [of s xs y] by auto
  with Cons show ?case using Cons.IH [of s1 "xs @ [y]"] by auto
qed

lemma deq_n_holds:
  assumes "holds s (xs @ ys)"
  shows "\<exists>s'. deq_n deq (length xs) s = Some (xs, s') \<and> holds s' ys \<and> allocated s' = allocated s"
  using assms
proof (induction xs arbitrary: s)
  case Nil
  then show ?case by simp
next
  case (Cons x xs)
  then obtain s1 where s1: "deq s = Some (Inr (Some x, s1))" "holds s1 (xs @ ys)" "allocated s1 = allocated s"
    using deq_holds [of s x "xs @ ys"] by auto
  with Cons.IH [OF s1(2)] show ?case by auto
qed

lemma served_in_order:
  assumes "holds s xs" and "set ys \<subseteq> allocated s" and "distinct ys" and "set ys \<inter> set xs = {}"
  obtains s1 s2 where "enq_all enq ys s = Inr s1"
    and "deq_n deq (length xs + length ys) s1 = Some (xs @ ys, s2)" and "deq s2 = None"
proof -
  obtain s1 where s1: "enq_all enq ys s = Inr s1" "holds s1 (xs @ ys)"
    using enq_all_holds [OF assms] by blast
  then obtain s2 where "deq_n deq (length (xs @ ys)) s1 = Some (xs @ ys, s2)" "holds s2 []"
    using deq_n_holds [of s1 "xs @ ys" "[]"] by auto
  with s1 deq_blocks that show thesis by simp
qed

end

interpretation aq: fifo queue_inv "\<lambda>p. dom (sessions p)" auth_queue_enqueue "sqmp_auth_queue_dequeue False"
proof
  fix p :: "'a sqmp_state_scheme" and xs x
  assume "queue_inv p xs" and "x \<in> dom (sessions p)" and "x \<notin> set xs"
  then obtain p' where "auth_queue_enqueue x p = Inr p'" "queue_inv p' (xs @ [x])" "queue_frame p p'"
    using enqueue_spec by blast
  then show "\<exists>p'. auth_queue_enqueue x p = Inr p' \<and> queue_inv p' (xs @ [x]) \<and> dom (sessions p') = dom (sessions p)"
    using queue_frame_dom by blast
next
  fix p :: "'a sqmp_state_scheme" and x xs
  assume "queue_inv p (x # xs)"
  then obtain p' where "sqmp_auth_queue_dequeue False p = Some (Inr (Some x, p'))" "queue_inv p' xs"
    "queue_frame p p'" using dequeue_spec by blast
  then show "\<exists>p'. sqmp_auth_queue_dequeue False p = Some (Inr (Some x, p')) \<and> queue_inv p' xs
      \<and> dom (sessions p') = dom (sessions p)"
    using queue_frame_dom by blast
next
  fix p :: "'a sqmp_state_scheme"
  assume "queue_inv p []"
  then show "sqmp_auth_queue_dequeue False p = None" by (rule dequeue_empty_blocks)
qed

section \<open>Properties\<close>

text \<open>C9: the authentication queue is a FIFO queue. A session that is not queued can be added
  behind those that are, adding and removing never touch anything but the queue's own globals
  and the sessions' \<^verbatim>\<open>next\<close> members, removing yields the oldest session, and the semaphore
  always counts the queued sessions, so that the thread blocks exactly on an empty queue.\<close>

theorem auth_queue_fifo:
  assumes "queue_inv p as"
  shows "(\<forall>a. a \<in> dom (sessions p) \<longrightarrow> a \<notin> set as \<longrightarrow>
      (\<exists>p'. auth_queue_enqueue a p = Inr p' \<and> queue_inv p' (as @ [a]) \<and> queue_frame p p'))
    \<and> (case as of
        [] \<Rightarrow> sqmp_auth_queue_dequeue False p = None
      | a # bs \<Rightarrow> \<exists>p'. sqmp_auth_queue_dequeue False p = Some (Inr (Some a, p')) \<and> queue_inv p' bs
          \<and> queue_frame p p')"
  using assms enqueue_spec [OF assms] dequeue_spec [of p] dequeue_empty_blocks [of p]
  by (auto split: list.split)

text \<open>A process with three sessions and an empty queue, for the witnesses.\<close>

definition queue_demo :: sqmp_state where
  "queue_demo = \<lparr>qs_ctxs = Map.empty, qs_conns = Map.empty, qs_streams = Map.empty,
     qs_sendbufs = Map.empty, qs_allocs = 3, qs_calls = [],
     sessions = [1 \<mapsto> new_session, 2 \<mapsto> new_session, 3 \<mapsto> new_session],
     g_next_session_id = 1, g_auth_queue_sem = 0, g_auth_queue_head = None,
     g_auth_queue_tail = None, g_registry = g_registry_init, console = []\<rparr>"

lemma queue_demo_inv: "queue_inv queue_demo []"
  by (simp add: queue_demo_def)

lemma queue_demo_dom: "dom (sessions queue_demo) = {1, 2, 3}"
  by (auto simp: queue_demo_def)

theorem auth_queue_fifo_witness:
  "\<exists>p'. auth_queue_enqueue 2 queue_demo = Inr p' \<and> queue_inv p' [2] \<and> queue_frame queue_demo p'"
  using auth_queue_fifo [OF queue_demo_inv] queue_demo_dom by auto

text \<open>C33: queuing a session a second time while others wait behind it destroys the queue.
  \<^verbatim>\<open>auth_queue_enqueue\<close> clears the session's \<^verbatim>\<open>next\<close> member first, which cuts the list there: the
  next removal returns the session, and the one after it returns \<^verbatim>\<open>NULL\<close> although the semaphore
  still counts waiting sessions. The sessions behind are lost, and the server's main loop takes
  \<^verbatim>\<open>NULL\<close> as the signal to stop.\<close>

theorem double_enqueue_loses_waiting_sessions:
  assumes "queue_inv p (a # b # bs)"
  shows "\<exists>p1 p2 p3. auth_queue_enqueue a p = Inr p1
    \<and> sqmp_auth_queue_dequeue False p1 = Some (Inr (Some a, p2))
    \<and> sqmp_auth_queue_dequeue False p2 = Some (Inr (None, p3))
    \<and> g_auth_queue_sem p3 = Suc (length bs)"
proof -
  obtain p1 p2 where p: "auth_queue_enqueue a p = Inr p1" "sqmp_auth_queue_dequeue False p1 = Some (Inr (Some a, p2))"
    "g_auth_queue_head p2 = None" "g_auth_queue_sem p2 = Suc (Suc (length bs))"
    using double_enqueue_cut [OF assms] by blast
  then have "sqmp_auth_queue_dequeue False p2 = Some (Inr (None, p2\<lparr>g_auth_queue_sem := Suc (length bs)\<rparr>))"
    by (simp add: sqmp_auth_queue_dequeue_def auth_queue_take_def)
  with p show ?thesis by auto
qed

theorem double_enqueue_loses_waiting_sessions_witness:
  "\<exists>p p1 p2 p3. enq_all auth_queue_enqueue [1, 2] queue_demo = Inr p
    \<and> auth_queue_enqueue 1 p = Inr p1
    \<and> sqmp_auth_queue_dequeue False p1 = Some (Inr (Some 1, p2))
    \<and> sqmp_auth_queue_dequeue False p2 = Some (Inr (None, p3)) \<and> g_auth_queue_sem p3 = 1"
proof -
  obtain p where p: "enq_all auth_queue_enqueue [1, 2] queue_demo = Inr p" "queue_inv p [1, 2]"
    using aq.enq_all_holds [OF queue_demo_inv, of "[1, 2]"] queue_demo_dom by auto
  with double_enqueue_loses_waiting_sessions [OF p(2)] show ?thesis by auto
qed

end
