(* ===== verification/Sqmp_Protocol.thy ===== *)
theory Sqmp_Protocol
  imports Sqmp_Auth_Queue
begin

text \<open>
  The message handlers of \<^verbatim>\<open>src/shared/sqmp.c\<close>, server and client side. A handler takes the stream,
  the session pointer (\<open>None\<close> is \<^verbatim>\<open>NULL\<close>) and the received buffer \<open>d\<close>, header included. Log lines
  on \<^verbatim>\<open>stderr\<close> and the debug build's \<^verbatim>\<open>[sent]\<close> lines are not modelled.
\<close>

section \<open>Sending\<close>

text \<open>A packet header as every sender fills it: version 1, no flags, reserved bytes zero.\<close>

definition make_pkt :: "sqmp_msg_type \<Rightarrow> u32 \<Rightarrow> sqmp_pkt" where
  "make_pkt ty sid = \<lparr>pkt_version = 1, pkt_msg_type = msg_code ty, pkt_flags = 0,
     pkt_session_id = sid, pkt_reserved = zeros 5\<rparr>"

text \<open>\<^verbatim>\<open>session ? session->session_id : 0\<close>\<close>

definition session_id_of :: "'a sqmp_state_scheme \<Rightarrow> addr option \<Rightarrow> fault + u32" where
  "session_id_of p session = (case session of
       None \<Rightarrow> Inr 0 | Some a \<Rightarrow> bindr (get_session p session) (\<lambda>v. Inr (s_session_id v)))"

text \<open>A call of \<^verbatim>\<open>sqmp_stream_send\<close> whose result is ignored.\<close>

definition send_pkt :: "env \<Rightarrow> addr option \<Rightarrow> bytes \<Rightarrow> 'a sqmp_state_scheme \<Rightarrow> fault + 'a sqmp_state_scheme" where
  "send_pkt env stream buf p = bindr (sqmp_stream_send env stream buf (length buf) p) (\<lambda>(r, p'). Inr p')"

definition sqmp_send_bye ::
  "env \<Rightarrow> addr option \<Rightarrow> addr option \<Rightarrow> 'a sqmp_state_scheme \<Rightarrow> fault + 'a sqmp_state_scheme" where
  "sqmp_send_bye env stream session p =
     bindr (session_id_of p session) (\<lambda>sid.
       send_pkt env stream (enc_pkt (make_pkt SQMP_MSG_TYPE_BYE sid)) p)"

definition sqmp_send_error ::
  "env \<Rightarrow> addr option \<Rightarrow> addr option \<Rightarrow> sqmp_error_code \<Rightarrow> bytes option \<Rightarrow>
   'a sqmp_state_scheme \<Rightarrow> fault + 'a sqmp_state_scheme" where
  "sqmp_send_error env stream session code desc p =
     bindr (session_id_of p session) (\<lambda>sid.
     let text = (case desc of None \<Rightarrow> [] | Some t \<Rightarrow> cstr t);
         dlen = min (length text) SQMP_ERROR_DESC_MAX_LEN in
     bindr (memcpy (zeros SQMP_ERROR_DESC_MAX_LEN) (take dlen text)) (\<lambda>description.
       send_pkt env stream
         (enc_pkt (make_pkt SQMP_MSG_TYPE_ERROR sid)
          @ enc_error \<lparr>error_error_code = error_code code, error_desc_len = of_nat dlen,
                       error_description = description\<rparr>) p))"

section \<open>Handshake\<close>

function hello_has_v1 :: "bytes \<Rightarrow> nat \<Rightarrow> nat \<Rightarrow> fault + bool" where
  "hello_has_v1 d num_versions i =
     (if i < num_versions \<and> i < 8
      then bindr (get_hello_version d i) (\<lambda>v.
        if v = 1 then Inr True else hello_has_v1 d num_versions (Suc i))
      else Inr False)"
  by pat_completeness auto
termination
  by (relation "measure (\<lambda>(d, n, i). 8 - i)") auto

declare hello_has_v1.simps [simp del]

definition sqmp_process_hello ::
  "env \<Rightarrow> addr \<Rightarrow> addr option \<Rightarrow> bytes \<Rightarrow> 'a sqmp_state_scheme \<Rightarrow> fault + 'a sqmp_state_scheme" where
  "sqmp_process_hello env stream session d p =
     bindr (get_session p session) (\<lambda>v.
     if s_state v \<noteq> SQMP_SESSION_STATE_HELLO
     then sqmp_send_error env (Some stream) session SQMP_ERROR_CODE_UNEXPECTED_MSG
            (Some (ascii ''unexpected HELLO'')) p
     else
       bindr (get_hello_num_versions d) (\<lambda>n.
       bindr (hello_has_v1 d (unat n) 0) (\<lambda>has_v1.
       if \<not> has_v1
       then bindr (sqmp_send_error env (Some stream) session SQMP_ERROR_CODE_VERSION_MISMATCH
                     (Some (ascii ''no supported protocol version'')) p) (\<lambda>p1.
              sqmp_send_bye env (Some stream) session p1)
       else
         let new_session_id = g_next_session_id p;
             p1 = p\<lparr>g_next_session_id := new_session_id + 1\<rparr>;
             p2 = put_session (the session) (v\<lparr>s_session_id := new_session_id\<rparr>) p1 in
         bindr (send_pkt env (Some stream)
             (enc_pkt (make_pkt SQMP_MSG_TYPE_HELLO_ACK new_session_id)
              @ enc_hello_ack \<lparr>hello_ack_selected_version = 1, hello_ack_max_message_size = 65535,
                               hello_ack_reserved = zeros 2\<rparr>) p2) (\<lambda>p3.
         Inr (put_session (the session)
                (v\<lparr>s_session_id := new_session_id, s_state := SQMP_SESSION_STATE_AUTH\<rparr>) p3)))))"

definition sqmp_process_hello_ack ::
  "addr option \<Rightarrow> bytes \<Rightarrow> 'a sqmp_state_scheme \<Rightarrow> fault + 'a sqmp_state_scheme" where
  "sqmp_process_hello_ack session d p =
     bindr (get_session p session) (\<lambda>v.
     if s_state v \<noteq> SQMP_SESSION_STATE_HELLO then Inr p
     else
       bindr (get_hello_ack_selected_version d) (\<lambda>ver.
       if ver \<noteq> 1 then Inr p
       else bindr (get_session_id d) (\<lambda>sid.
         Inr (put_session (the session)
           (v\<lparr>s_session_id := sid, s_state := SQMP_SESSION_STATE_AUTH,
              s_login_ready := Suc (s_login_ready v)\<rparr>) p))))"

section \<open>Authentication\<close>

definition sqmp_process_auth_req ::
  "env \<Rightarrow> addr \<Rightarrow> addr option \<Rightarrow> bytes \<Rightarrow> 'a sqmp_state_scheme \<Rightarrow> fault + 'a sqmp_state_scheme" where
  "sqmp_process_auth_req env stream session d p =
     bindr (get_session p session) (\<lambda>v.
     if s_state v \<noteq> SQMP_SESSION_STATE_AUTH
     then sqmp_send_error env (Some stream) session SQMP_ERROR_CODE_UNEXPECTED_MSG
            (Some (ascii ''unexpected AUTH_REQ'')) p
     else
       bindr (get_auth_req_username_len d) (\<lambda>ulen.
       bindr (get_auth_req_username d (unat ulen)) (\<lambda>uname.
       bindr (memcpy (s_auth_username v) uname) (\<lambda>auth_username.
       bindr (get_auth_req_password_hash d) (\<lambda>hash.
       bindr (memcpy (s_auth_password_hash v) hash) (\<lambda>auth_password_hash.
       bindr (get_auth_req_pubkey_len d) (\<lambda>klen.
       bindr (if klen = 32 then bindr (get_auth_req_public_key d) (memcpy (s_auth_pubkey v))
              else Inr (s_auth_pubkey v)) (\<lambda>auth_pubkey.
       auth_queue_enqueue (the session) (put_session (the session)
         (v\<lparr>s_auth_username_len := ulen, s_auth_username := auth_username,
            s_auth_password_hash := auth_password_hash, s_auth_pubkey := auth_pubkey,
            s_auth_stream := Some stream, s_auth_queued := True\<rparr>) p)))))))))"

definition sqmp_process_auth_resp ::
  "addr option \<Rightarrow> bytes \<Rightarrow> 'a sqmp_state_scheme \<Rightarrow> fault + 'a sqmp_state_scheme" where
  "sqmp_process_auth_resp session d p =
     bindr (get_session p session) (\<lambda>v.
     bindr (if s_state v = SQMP_SESSION_STATE_AUTH
            then bindr (get_auth_resp_status d) (\<lambda>status.
              if status = auth_status_code SQMP_AUTH_STATUS_OK
              then Inr (v\<lparr>s_state := SQMP_SESSION_STATE_CONN_ESTABLISHED, s_auth_ok := True\<rparr>)
              else Inr (v\<lparr>s_auth_ok := False\<rparr>))
            else Inr v) (\<lambda>v1.
     Inr (put_session (the session) (v1\<lparr>s_auth_done := Suc (s_auth_done v1)\<rparr>) p)))"

section \<open>Chat and key exchange\<close>

definition sqmp_process_chat_send ::
  "env \<Rightarrow> addr \<Rightarrow> addr option \<Rightarrow> bytes \<Rightarrow> 'a sqmp_state_scheme \<Rightarrow> fault + 'a sqmp_state_scheme" where
  "sqmp_process_chat_send env stream session d p =
     bindr (get_session p session) (\<lambda>v.
     if s_state v \<noteq> SQMP_SESSION_STATE_CONN_ESTABLISHED
     then sqmp_send_error env (Some stream) session SQMP_ERROR_CODE_UNEXPECTED_MSG
            (Some (ascii ''unexpected CHAT_SEND'')) p
     else
       bindr (get_chat_name_len d) (\<lambda>rlen.
       bindr (sqmp_registry_find (g_registry p) (drop 13 d) rlen) (\<lambda>recipient.
       if recipient = None
       then sqmp_send_error env (Some stream) session SQMP_ERROR_CODE_USER_NOT_FOUND
              (Some (ascii ''recipient not online'')) p
       else
         bindr (get_chat_ciphertext_len d) (\<lambda>clen.
         let (mem, p1) = alloc env p in
         if mem = None then Inr p1
         else
           bindr (get_session_id d) (\<lambda>sid.
           bindr (rdn (s_username v) 0 (unat (s_username_len v))) (\<lambda>uname.
           bindr (memcpy (zeros SQMP_USERNAME_MAX_LEN) uname) (\<lambda>sender.
           bindr (get_chat_enc_key_len d) (\<lambda>klen.
           bindr (get_chat_encrypted_key d 256) (\<lambda>ekey.
           bindr (get_chat_nonce d) (\<lambda>nonce.
           bindr (get_chat_ciphertext d (unat clen)) (\<lambda>ciphertext.
           let msg = enc_pkt (make_pkt SQMP_MSG_TYPE_CHAT_DELIVER sid)
                 @ enc_chat \<lparr>chat_name_len = s_username_len v, chat_name = sender,
                     chat_enc_key_len = klen, chat_encrypted_key = ekey, chat_nonce = nonce,
                     chat_ciphertext_len = clen, chat_ciphertext = ciphertext\<rparr> in
           bindr (sqmp_stream_send env recipient msg (length msg) p1) (\<lambda>(r, p2).
           if r \<noteq> 0
           then sqmp_send_error env (Some stream) session SQMP_ERROR_CODE_COULD_NOT_SEND
                  (Some (ascii ''could not deliver message'')) p2
           else Inr p2))))))))))))"

definition sqmp_process_key_req ::
  "env \<Rightarrow> addr \<Rightarrow> addr option \<Rightarrow> bytes \<Rightarrow> 'a sqmp_state_scheme \<Rightarrow> fault + 'a sqmp_state_scheme" where
  "sqmp_process_key_req env stream session d p =
     bindr (get_session p session) (\<lambda>v.
     if s_state v \<noteq> SQMP_SESSION_STATE_CONN_ESTABLISHED
     then sqmp_send_error env (Some stream) session SQMP_ERROR_CODE_UNEXPECTED_MSG
            (Some (ascii ''unexpected KEY_REQ'')) p
     else
       bindr (get_key_username_len d) (\<lambda>ulen.
       bindr (sqmp_registry_get_pubkey (g_registry p) (drop 13 d) ulen) (\<lambda>found.
       case found of
         None \<Rightarrow> sqmp_send_error env (Some stream) session SQMP_ERROR_CODE_USER_NOT_FOUND
                   (Some (ascii ''user not found'')) p
       | Some pubkey \<Rightarrow>
           let (mem, p1) = alloc env p in
           if mem = None then Inr p1
           else
             bindr (get_session_id d) (\<lambda>sid.
             bindr (get_key_username d (unat ulen)) (\<lambda>uname.
             bindr (memcpy (zeros SQMP_USERNAME_MAX_LEN) uname) (\<lambda>username.
             send_pkt env (Some stream)
               (enc_pkt (make_pkt SQMP_MSG_TYPE_KEY_RESP sid)
                @ enc_key_resp \<lparr>key_resp_username_len = ulen, key_resp_username = username,
                    key_resp_pubkey_len = 32, key_resp_public_key = pubkey\<rparr>) p1))))))"

definition sqmp_process_key_resp ::
  "addr option \<Rightarrow> bytes \<Rightarrow> 'a sqmp_state_scheme \<Rightarrow> fault + 'a sqmp_state_scheme" where
  "sqmp_process_key_resp session d p =
     bindr (get_key_resp_pubkey_len d) (\<lambda>klen.
     bindr (get_session p session) (\<lambda>v.
     bindr (if klen = 32
            then bindr (get_key_resp_public_key d) (memcpy (s_key_fetch_result v))
            else Inr (zeros 32)) (\<lambda>key.
     Inr (put_session (the session)
       (v\<lparr>s_key_fetch_result := key, s_key_fetch_sem := Suc (s_key_fetch_sem v)\<rparr>) p))))"

section \<open>Server shutdown\<close>

text \<open>The loops over the registry of \<^verbatim>\<open>sqmp_registry_send_bye_all\<close> and
  \<^verbatim>\<open>sqmp_registry_shutdown_connections\<close>.\<close>

fun send_bye_entries ::
  "env \<Rightarrow> registry \<Rightarrow> 'a sqmp_state_scheme \<Rightarrow> fault + 'a sqmp_state_scheme" where
  "send_bye_entries env [] p = Inr p"
| "send_bye_entries env (e # es) p =
     (if re_in_use e \<noteq> 0 \<and> re_stream e \<noteq> None
      then bindr (send_pkt env (re_stream e) (enc_pkt (make_pkt SQMP_MSG_TYPE_BYE 0)) p) (send_bye_entries env es)
      else send_bye_entries env es p)"

definition sqmp_registry_send_bye_all ::
  "env \<Rightarrow> 'a sqmp_state_scheme \<Rightarrow> fault + 'a sqmp_state_scheme" where
  "sqmp_registry_send_bye_all env p = send_bye_entries env (g_registry p) p"

fun shutdown_entries :: "registry \<Rightarrow> 'a sqmp_state_scheme \<Rightarrow> fault + 'a sqmp_state_scheme" where
  "shutdown_entries [] p = Inr p"
| "shutdown_entries (e # es) p =
     (if re_in_use e \<noteq> 0 \<and> re_stream e \<noteq> None
      then bindr (stream_chain p (re_stream e)) (\<lambda>(st, c, x).
        shutdown_entries es (api_do (ConnectionShutdown (conn_handle c)) p))
      else shutdown_entries es p)"

definition sqmp_registry_shutdown_connections ::
  "'a sqmp_state_scheme \<Rightarrow> fault + 'a sqmp_state_scheme" where
  "sqmp_registry_shutdown_connections p = shutdown_entries (g_registry p) p"

section \<open>Weak handlers and debug output\<close>

text \<open>The weak definitions of \<^verbatim>\<open>sqmp_process_bye\<close>, \<^verbatim>\<open>sqmp_process_error\<close> and
  \<^verbatim>\<open>sqmp_process_chat_deliver\<close> do nothing; \<^verbatim>\<open>server.c\<close> overrides the first, \<^verbatim>\<open>client.c\<close> all three.\<close>

definition weak_process_bye :: "'s \<Rightarrow> fault + 's" where
  "weak_process_bye p = Inr p"

definition weak_process_error :: "'s \<Rightarrow> fault + 's" where
  "weak_process_error p = Inr p"

definition weak_process_chat_deliver :: "'s \<Rightarrow> fault + 's" where
  "weak_process_chat_deliver p = Inr p"

text \<open>\<^verbatim>\<open>printf("%.*s", n, d + off)\<close> reads up to \<open>n\<close> bytes and stops at a \<^verbatim>\<open>NUL\<close>.\<close>

definition rd_str :: "bytes \<Rightarrow> nat \<Rightarrow> nat \<Rightarrow> fault + bytes" where
  "rd_str d off n = (let s = take n (drop off d) in
     if 0 \<in> set s \<or> off + n \<le> length d \<or> n = 0 then Inr (cstr s) else Inl OobRead)"

text \<open>A debug line: its tag, the numbers and the strings it prints.\<close>

datatype dbg_line = Dbg string "nat list" "bytes list"

definition sqmp_dbg_recv_pkt :: "bytes \<Rightarrow> fault + dbg_line" where
  "sqmp_dbg_recv_pkt d =
     bindr (get_msg_type d) (\<lambda>ty.
     if ty = msg_code SQMP_MSG_TYPE_HELLO then
       bindr (get_hello_num_versions d) (\<lambda>n. Inr (Dbg ''MSG_HELLO'' [unat n] []))
     else if ty = msg_code SQMP_MSG_TYPE_HELLO_ACK then
       bindr (get_session_id d) (\<lambda>sid. bindr (get_hello_ack_selected_version d) (\<lambda>ver.
         Inr (Dbg ''MSG_HELLO_ACK'' [unat sid, unat ver] [])))
     else if ty = msg_code SQMP_MSG_TYPE_AUTH_REQ then
       bindr (get_auth_req_username_len d) (\<lambda>n. bindr (rd_str d 13 (unat n)) (\<lambda>u.
         Inr (Dbg ''MSG_AUTH_REQ'' [] [u])))
     else if ty = msg_code SQMP_MSG_TYPE_AUTH_RESP then
       bindr (get_auth_resp_status d) (\<lambda>st. bindr (get_auth_resp_session_id d) (\<lambda>sid.
         Inr (Dbg ''MSG_AUTH_RESP'' [unat sid]
           [if st = auth_status_code SQMP_AUTH_STATUS_OK then ascii ''ok'' else ascii ''fail''])))
     else if ty = msg_code SQMP_MSG_TYPE_KEY_REQ then
       bindr (get_key_username_len d) (\<lambda>n. bindr (rd_str d 13 (unat n)) (\<lambda>u.
         Inr (Dbg ''MSG_KEY_REQ'' [] [u])))
     else if ty = msg_code SQMP_MSG_TYPE_KEY_RESP then
       bindr (get_key_username_len d) (\<lambda>n. bindr (rd_str d 13 (unat n)) (\<lambda>u.
         Inr (Dbg ''MSG_KEY_RESP'' [] [u])))
     else if ty = msg_code SQMP_MSG_TYPE_ERROR then
       bindr (get_error_code d) (\<lambda>c. bindr (get_error_desc_len d) (\<lambda>n. bindr (rd_str d 14 (unat n)) (\<lambda>t.
         Inr (Dbg ''MSG_ERROR'' [unat c] [t]))))
     else if ty = msg_code SQMP_MSG_TYPE_BYE then
       bindr (get_session_id d) (\<lambda>sid. Inr (Dbg ''MSG_BYE'' [unat sid] []))
     else if ty = msg_code SQMP_MSG_TYPE_CHAT_SEND then
       bindr (get_chat_name_len d) (\<lambda>n. bindr (rd_str d 13 (unat n)) (\<lambda>u. bindr (get_chat_ciphertext_len d) (\<lambda>c.
         Inr (Dbg ''MSG_CHAT_SEND'' [unat c] [u]))))
     else if ty = msg_code SQMP_MSG_TYPE_CHAT_DELIVER then
       bindr (get_chat_name_len d) (\<lambda>n. bindr (rd_str d 13 (unat n)) (\<lambda>u. bindr (get_chat_ciphertext_len d) (\<lambda>c.
         Inr (Dbg ''MSG_CHAT_DELIVER'' [unat c] [u]))))
     else bindr (get_session_id d) (\<lambda>sid. Inr (Dbg ''MSG_UNKNOWN'' [unat ty, unat sid] [])))"

section \<open>Sending on a live stream\<close>

text \<open>A library and an allocator that accept everything.\<close>

definition healthy :: "env \<Rightarrow> bool" where
  "healthy env \<longleftrightarrow> (\<forall>n. env_malloc env n) \<and> (\<forall>n c. \<not> QUIC_FAILED (env_status env n c))"

text \<open>The stream \<open>st\<close> is open: it, its connection and its context are allocated.\<close>

definition live_stream :: "'a quic_state_scheme \<Rightarrow> addr \<Rightarrow> bool" where
  "live_stream p st \<longleftrightarrow> (\<exists>r. stream_chain p (Some st) = Inr r)"

definition handle_of :: "'a quic_state_scheme \<Rightarrow> addr \<Rightarrow> HQUIC" where
  "handle_of p st = (case qs_streams p st of None \<Rightarrow> 0 | Some x \<Rightarrow> stream_handle x)"

text \<open>The state after a send that MsQuic accepted.\<close>

definition after_send :: "addr \<Rightarrow> bytes \<Rightarrow> 'a quic_state_scheme \<Rightarrow> 'a quic_state_scheme" where
  "after_send st buf p = p\<lparr>qs_sendbufs := (qs_sendbufs p)(Suc (qs_allocs p) \<mapsto> buf),
     qs_allocs := Suc (qs_allocs p),
     qs_calls := qs_calls p @ [StreamSend (handle_of p st) buf (Suc (qs_allocs p))]\<rparr>"

text \<open>The packets a state has handed to MsQuic: stream handle and bytes.\<close>

definition sent_packets :: "'a quic_state_scheme \<Rightarrow> (HQUIC \<times> bytes) list" where
  "sent_packets p = List.map_filter (\<lambda>c. case c of StreamSend h b sb \<Rightarrow> Some (h, b) | _ \<Rightarrow> None) (qs_calls p)"

lemma healthy_env_ok [simp]: "healthy env_ok"
  by (simp add: healthy_def)

lemma live_stream_after_send [simp]: "live_stream (after_send st buf p) t \<longleftrightarrow> live_stream p t"
  by (simp add: live_stream_def after_send_def stream_chain_def)

lemma handle_of_after_send [simp]: "handle_of (after_send st buf p) t = handle_of p t"
  by (simp add: handle_of_def after_send_def)

lemma live_stream_put_session [simp]: "live_stream (put_session a v p) t \<longleftrightarrow> live_stream p t"
  by (simp add: live_stream_def put_session_def stream_chain_def)

lemma handle_of_put_session [simp]: "handle_of (put_session a v p) t = handle_of p t"
  by (simp add: handle_of_def put_session_def)

lemma sent_packets_put_session [simp]: "sent_packets (put_session a v p) = sent_packets p"
  by (simp add: sent_packets_def)

lemma live_stream_upd [simp]:
  "live_stream (p\<lparr>g_next_session_id := n\<rparr>) t \<longleftrightarrow> live_stream p t"
  "live_stream (q\<lparr>qs_allocs := m\<rparr>) t \<longleftrightarrow> live_stream q t"
  by (simp_all add: live_stream_def stream_chain_def)

lemma handle_of_upd [simp]:
  "handle_of (p\<lparr>g_next_session_id := n\<rparr>) t = handle_of p t" "handle_of (q\<lparr>qs_allocs := m\<rparr>) t = handle_of q t"
  by (simp_all add: handle_of_def)

lemma sent_packets_after_send [simp]:
  "sent_packets (after_send st buf p) = sent_packets p @ [(handle_of p st, buf)]"
  by (simp add: sent_packets_def after_send_def List.map_filter_def)

lemma sent_packets_upd [simp]:
  "sent_packets (p\<lparr>g_next_session_id := n\<rparr>) = sent_packets p" "sent_packets (q\<lparr>qs_allocs := m\<rparr>) = sent_packets q"
  by (simp_all add: sent_packets_def)

lemma after_send_simps [simp]:
  "sessions (after_send st buf p) = sessions p" "g_registry (after_send st buf p) = g_registry p"
  "g_next_session_id (after_send st buf p) = g_next_session_id p"
  "g_auth_queue_head (after_send st buf p) = g_auth_queue_head p"
  "g_auth_queue_tail (after_send st buf p) = g_auth_queue_tail p"
  "g_auth_queue_sem (after_send st buf p) = g_auth_queue_sem p"
  "console (after_send st buf p) = console p"
  by (simp_all add: after_send_def)

lemma alloc_healthy:
  "healthy env \<Longrightarrow> alloc env p = (Some (Suc (qs_allocs p)), p\<lparr>qs_allocs := Suc (qs_allocs p)\<rparr>)"
  by (simp add: alloc_def healthy_def)

lemma sqmp_stream_send_live:
  assumes "healthy env" and "live_stream p st" and "n = length buf" and "n < 2 ^ 32"
  shows "sqmp_stream_send env (Some st) buf n p = Inr (0, after_send st buf p)"
proof -
  obtain x c q where chain: "stream_chain p (Some st) = Inr (x, c, q)"
    using assms(2) by (auto simp: live_stream_def)
  then have "handle_of p st = stream_handle x"
    by (auto simp: handle_of_def stream_chain_def bindr_eq_Inr_iff deref_eq_Inr_iff)
  then show ?thesis
    using assms(1,3,4)
    by (simp add: sqmp_stream_send_eq [OF chain] healthy_def after_send_def Let_def)
qed

lemma send_pkt_live:
  "healthy env \<Longrightarrow> live_stream p st \<Longrightarrow> length buf < 2 ^ 32 \<Longrightarrow>
   send_pkt env (Some st) buf p = Inr (after_send st buf p)"
  by (simp add: send_pkt_def sqmp_stream_send_live)

text \<open>The packets that carry no body of their own.\<close>

definition bye_pkt :: "u32 \<Rightarrow> bytes" where
  "bye_pkt sid = enc_pkt (make_pkt SQMP_MSG_TYPE_BYE sid)"

definition error_pkt :: "u32 \<Rightarrow> sqmp_error_code \<Rightarrow> string \<Rightarrow> bytes" where
  "error_pkt sid code desc = enc_pkt (make_pkt SQMP_MSG_TYPE_ERROR sid)
     @ enc_error \<lparr>error_error_code = error_code code, error_desc_len = of_nat (length desc),
          error_description = ascii desc @ zeros (128 - length desc)\<rparr>"

lemma wf_make_pkt [simp]: "wf_pkt (make_pkt ty sid)"
  by (simp add: wf_pkt_def make_pkt_def)

lemma make_pkt_simps [simp]:
  "pkt_msg_type (make_pkt ty sid) = msg_code ty" "pkt_session_id (make_pkt ty sid) = sid"
  by (simp_all add: make_pkt_def)

lemma length_enc_make_pkt [simp]: "length (enc_pkt (make_pkt ty sid)) = 12"
  using length_enc_pkt [OF wf_make_pkt] by simp

lemma sqmp_send_bye_live:
  assumes "healthy env" and "live_stream p st" and "sessions p a = Some v"
  shows "sqmp_send_bye env (Some st) (Some a) p = Inr (after_send st (bye_pkt (s_session_id v)) p)"
  using assms by (simp add: sqmp_send_bye_def session_id_of_def send_pkt_live bye_pkt_def)

lemma zero_in_ascii [simp]:
  "0 \<in> set (ascii []) \<longleftrightarrow> False" "0 \<in> set (ascii (c # s)) \<longleftrightarrow> of_char c = (0 :: u8) \<or> 0 \<in> set (ascii s)"
  by (auto simp: ascii_def)

lemma sqmp_send_error_live:
  assumes "healthy env" and "live_stream p st" and "sessions p a = Some v"
    and "length desc \<le> 128" and "0 \<notin> set (ascii desc)"
  shows "sqmp_send_error env (Some st) (Some a) code (Some (ascii desc)) p
           = Inr (after_send st (error_pkt (s_session_id v) code desc) p)"
  using assms
  by (simp add: sqmp_send_error_def session_id_of_def memcpy_def error_pkt_def send_pkt_live enc_error_def
      Let_def zeros_def)

section \<open>Handshake\<close>

lemma hello_has_v1_spec:
  assumes "\<And>i. i < 8 \<Longrightarrow> get_hello_version d i = Inr (vs ! i)" and "length vs = 8" and "i \<le> 8"
  shows "hello_has_v1 d n i = Inr (1 \<in> set (drop i (take (min n 8) vs)))"
  using assms(3)
proof (induction "8 - i" arbitrary: i)
  case 0
  then show ?case by (simp add: hello_has_v1.simps)
next
  case (Suc k)
  show ?case
  proof (cases "i < n")
    case True
    then have "drop i (take (min n 8) vs) = vs ! i # drop (Suc i) (take (min n 8) vs)"
      using Suc assms(2) by (simp add: Cons_nth_drop_Suc [symmetric])
    then show ?thesis
      using Suc True assms by (subst hello_has_v1.simps) auto
  next
    case False
    then show ?thesis using Suc by (subst hello_has_v1.simps) simp
  qed
qed

definition hello_ack_pkt :: "u32 \<Rightarrow> bytes" where
  "hello_ack_pkt sid = enc_pkt (make_pkt SQMP_MSG_TYPE_HELLO_ACK sid)
     @ enc_hello_ack \<lparr>hello_ack_selected_version = 1, hello_ack_max_message_size = 65535,
                      hello_ack_reserved = zeros 2\<rparr>"

text \<open>C14: the server's side of the handshake. A \<^verbatim>\<open>HELLO\<close> from a session in state HELLO that offers
  version 1 among its first eight versions gets the next session id, a \<^verbatim>\<open>HELLO_ACK\<close> with that id,
  and moves to state AUTH. One that does not offer version 1 gets an \<^verbatim>\<open>ERROR\<close> and a \<^verbatim>\<open>BYE\<close>, and
  in any other state the session gets an \<^verbatim>\<open>ERROR\<close>; then no session and no counter changes.\<close>

theorem process_hello_replies:
  fixes r :: bytes
  assumes "healthy env" and "live_stream p st" and "sessions p a = Some v"
    and "wf_pkt h" and "wf_hello m"
  defines "d \<equiv> enc_pkt h @ enc_hello m @ r"
    and "offered \<equiv> take (min (unat (hello_num_versions m)) 8) (hello_versions m)"
  shows "\<exists>p'. sqmp_process_hello env st (Some a) d p = Inr p' \<and>
    (if s_state v \<noteq> SQMP_SESSION_STATE_HELLO then
       sessions p' = sessions p \<and> g_next_session_id p' = g_next_session_id p \<and> sent_packets p' = sent_packets p
         @ [(handle_of p st, error_pkt (s_session_id v) SQMP_ERROR_CODE_UNEXPECTED_MSG ''unexpected HELLO'')]
     else if 1 \<in> set offered then
       sessions p' = (sessions p)(a \<mapsto> v\<lparr>s_session_id := g_next_session_id p, s_state := SQMP_SESSION_STATE_AUTH\<rparr>)
       \<and> g_next_session_id p' = g_next_session_id p + 1
       \<and> sent_packets p' = sent_packets p @ [(handle_of p st, hello_ack_pkt (g_next_session_id p))]
     else
       sessions p' = sessions p \<and> g_next_session_id p' = g_next_session_id p \<and> sent_packets p' = sent_packets p
         @ [(handle_of p st, error_pkt (s_session_id v) SQMP_ERROR_CODE_VERSION_MISMATCH ''no supported protocol version''),
            (handle_of p st, bye_pkt (s_session_id v))])"
proof (cases "s_state v = SQMP_SESSION_STATE_HELLO")
  case False
  then show ?thesis
    using assms(1-3) by (simp add: sqmp_process_hello_def sqmp_send_error_live)
next
  case True
  have "hello_has_v1 d (unat (hello_num_versions m)) 0 = Inr (1 \<in> set offered)"
    using hello_has_v1_spec [of d "hello_versions m" 0] assms(4,5)
    by (simp add: d_def offered_def hello_reads wf_hello_def)
  then show ?thesis
    using True assms(1-5)
    by (simp add: sqmp_process_hello_def d_def hello_reads sqmp_send_error_live sqmp_send_bye_live
        send_pkt_live hello_ack_pkt_def enc_hello_ack_def Let_def)
qed


text \<open>A server process with one session (at 4, user \<^verbatim>\<open>b\<close>) on stream 3 and a registered user \<^verbatim>\<open>a\<close>
  on stream 5, for the concrete instances.\<close>

definition proto_session :: "sqmp_session_state \<Rightarrow> sqmp_session" where
  "proto_session s = new_session\<lparr>s_state := s, s_session_id := 6, s_username_len := 1, s_username := 98 # zeros 31\<rparr>"

definition proto_demo :: "sqmp_session_state \<Rightarrow> sqmp_state" where
  "proto_demo s = \<lparr>
     qs_ctxs = [1 \<mapsto> \<lparr>ctx_reg = 1, ctx_config = 2, ctx_listener = 3, ctx_idle_timeout_ms = 0\<rparr>],
     qs_conns = [2 \<mapsto> \<lparr>conn_handle = 7, conn_ctx = 1, conn_connect_sem = 0, conn_closed_sem = 0,
       conn_connected = True, conn_is_server = True, conn_user_data = Some 4\<rparr>],
     qs_streams = [3 \<mapsto> \<lparr>stream_handle = 9, stream_conn = 2, stream_user_data = Some 4\<rparr>,
       5 \<mapsto> \<lparr>stream_handle = 10, stream_conn = 2, stream_user_data = None\<rparr>],
     qs_sendbufs = Map.empty, qs_allocs = 10, qs_calls = [],
     sessions = [4 \<mapsto> proto_session s], g_next_session_id = 7, g_auth_queue_sem = 0,
     g_auth_queue_head = None, g_auth_queue_tail = None, g_registry = one_user_registry, console = []\<rparr>"

lemma proto_demo_simps [simp]:
  "sessions (proto_demo s) 4 = Some (proto_session s)" "g_registry (proto_demo s) = one_user_registry"
  "live_stream (proto_demo s) 3" "live_stream (proto_demo s) 5"
  "handle_of (proto_demo s) 3 = 9" "handle_of (proto_demo s) 5 = 10"
  "sent_packets (proto_demo s) = []" "g_next_session_id (proto_demo s) = 7"
  "s_state (proto_session s) = s" "s_session_id (proto_session s) = 6"
  by (simp_all add: proto_demo_def live_stream_def stream_chain_def handle_of_def sent_packets_def
      proto_session_def List.map_filter_def)

lemma wf_proto_session [simp]: "wf_session (proto_session s)" "s_name (proto_session s) = [98]"
  by (simp_all add: proto_session_def wf_session_def new_session_def s_name_def)

theorem process_hello_replies_witness:
  "\<exists>p'. sqmp_process_hello env_ok 3 (Some 4)
       (enc_pkt (make_pkt SQMP_MSG_TYPE_HELLO 0) @ enc_hello \<lparr>hello_num_versions = 1,
          hello_versions = 1 # zeros 7, hello_selected_version = 1, hello_max_message_size = 65535,
          hello_reserved = zeros 2\<rparr> @ [0]) (proto_demo SQMP_SESSION_STATE_HELLO) = Inr p'
     \<and> sent_packets p' = [(9, hello_ack_pkt 7)]"
  using process_hello_replies [of env_ok "proto_demo SQMP_SESSION_STATE_HELLO" 3 4 _
      "make_pkt SQMP_MSG_TYPE_HELLO 0" "\<lparr>hello_num_versions = 1,
          hello_versions = 1 # zeros 7, hello_selected_version = 1, hello_max_message_size = 65535,
          hello_reserved = zeros 2\<rparr>" "[0]"]
  by (auto simp: wf_hello_def)

section \<open>Authentication requests\<close>

text \<open>The session with the credentials of an authentication request stored in it.\<close>

definition stored_auth :: "addr \<Rightarrow> sqmp_msg_auth_req \<Rightarrow> sqmp_session \<Rightarrow> sqmp_session" where
  "stored_auth st m v = (let n = unat (auth_req_username_len m) in
     v\<lparr>s_auth_username_len := auth_req_username_len m,
       s_auth_username := take n (auth_req_username m) @ drop n (s_auth_username v),
       s_auth_password_hash := auth_req_password_hash m, s_auth_pubkey := auth_req_public_key m,
       s_auth_stream := Some st, s_auth_queued := True\<rparr>)"

text \<open>A request whose fields fit: a name of at most 32 bytes and a 32-byte key.\<close>

definition good_auth_req :: "sqmp_msg_auth_req \<Rightarrow> bool" where
  "good_auth_req m \<longleftrightarrow> wf_auth_req m \<and> unat (auth_req_username_len m) \<le> 32
     \<and> auth_req_pubkey_len m = 32 \<and> length (auth_req_public_key m) = 32"

definition auth_req_name :: "sqmp_msg_auth_req \<Rightarrow> bytes" where
  "auth_req_name m = take (unat (auth_req_username_len m)) (auth_req_username m)"

lemma stored_auth_simps:
  assumes "wf_session v" and "good_auth_req m"
  shows "wf_session (stored_auth st m v)" "s_auth_name (stored_auth st m v) = auth_req_name m"
  using assms
  by (simp_all add: stored_auth_def Let_def good_auth_req_def wf_auth_req_def wf_session_def s_auth_name_def auth_req_name_def)

lemma auth_req_stored:
  assumes "sessions p a = Some v" and "wf_session v" and "wf_pkt h" and "good_auth_req m"
    and "s_state v = SQMP_SESSION_STATE_AUTH"
  shows "sqmp_process_auth_req env st (Some a) (enc_pkt h @ enc_auth_req m @ r) p
           = auth_queue_enqueue a (put_session a (stored_auth st m v) p)"
  using assms
  by (simp add: sqmp_process_auth_req_def auth_req_reads memcpy_def good_auth_req_def
      wf_session_def wf_auth_req_def stored_auth_def Let_def)

lemma auth_req_queued:
  assumes "sessions p a = Some v" and "wf_session v" and "wf_pkt h" and "good_auth_req m"
    and "s_state v = SQMP_SESSION_STATE_AUTH" and "queue_inv p as" and "a \<notin> set as"
  obtains p' n where "sqmp_process_auth_req env st (Some a) (enc_pkt h @ enc_auth_req m @ r) p = Inr p'"
    and "queue_inv p' (as @ [a])" and "queue_frame (put_session a (stored_auth st m v) p) p'"
    and "sessions p' a = Some (stored_auth st m v\<lparr>s_next := n\<rparr>)"
proof -
  let ?p1 = "put_session a (stored_auth st m v) p"
  have "queue_inv ?p1 as" using assms(6,7) by (simp add: queue_inv_put_other)
  then obtain p' where p': "auth_queue_enqueue a ?p1 = Inr p'" "queue_inv p' (as @ [a])" "queue_frame ?p1 p'"
    using enqueue_spec [of ?p1 as a] assms(7) by auto
  moreover obtain n where "sessions p' a = Some (stored_auth st m v\<lparr>s_next := n\<rparr>)"
    using queue_frame_session [OF p'(3), of a "stored_auth st m v"] by auto
  ultimately show thesis using that auth_req_stored [OF assms(1-5)] by simp
qed

text \<open>C15: an authentication request is stored and queued. From a session in state AUTH, a request
  with a name of at most 32 bytes and a 32-byte key makes the session carry exactly the request's
  name, password hash, key and stream, marks it as queued and puts it at the end of the queue;
  in another state the session only gets an \<^verbatim>\<open>ERROR\<close>.\<close>

theorem process_auth_req_queues:
  fixes r :: bytes
  assumes "healthy env" and "live_stream p st" and "sessions p a = Some v" and "wf_session v"
    and "wf_pkt h" and "good_auth_req m"
    and "queue_inv p as" and "a \<notin> set as"
  defines "d \<equiv> enc_pkt h @ enc_auth_req m @ r"
  shows "if s_state v \<noteq> SQMP_SESSION_STATE_AUTH then
      sqmp_process_auth_req env st (Some a) d p = Inr (after_send st
        (error_pkt (s_session_id v) SQMP_ERROR_CODE_UNEXPECTED_MSG ''unexpected AUTH_REQ'') p)
    else \<exists>p' v'. sqmp_process_auth_req env st (Some a) d p = Inr p' \<and> queue_inv p' (as @ [a])
      \<and> sessions p' a = Some v' \<and> wf_session v' \<and> s_auth_queued v'
      \<and> s_auth_name v' = auth_req_name m
      \<and> s_auth_password_hash v' = auth_req_password_hash m \<and> s_auth_pubkey v' = auth_req_public_key m
      \<and> s_auth_stream v' = Some st \<and> s_state v' = SQMP_SESSION_STATE_AUTH
      \<and> g_registry p' = g_registry p \<and> sent_packets p' = sent_packets p"
proof (cases "s_state v = SQMP_SESSION_STATE_AUTH")
  case False
  then show ?thesis
    using assms(1-3) by (simp add: sqmp_process_auth_req_def sqmp_send_error_live)
next
  case True
  obtain p' n where p': "sqmp_process_auth_req env st (Some a) d p = Inr p'" "queue_inv p' (as @ [a])"
    "queue_frame (put_session a (stored_auth st m v) p) p'" "sessions p' a = Some (stored_auth st m v\<lparr>s_next := n\<rparr>)"
    using auth_req_queued [OF assms(3-6) True assms(7,8)] unfolding d_def by metis
  moreover have "wf_session (stored_auth st m v\<lparr>s_next := n\<rparr>)" "s_auth_name (stored_auth st m v\<lparr>s_next := n\<rparr>) = auth_req_name m"
    using stored_auth_simps [OF assms(4,6), of st] by (simp_all add: wf_session_def s_auth_name_def)
  ultimately show ?thesis
    using True queue_frame_fields [OF p'(3)] by (simp add: stored_auth_def Let_def sent_packets_def)
qed

definition demo_auth_req :: sqmp_msg_auth_req where
  "demo_auth_req = \<lparr>auth_req_username_len = 2, auth_req_username = [99, 100] @ zeros 30,
     auth_req_password_hash = replicate 32 7, auth_req_pubkey_len = 32, auth_req_public_key = replicate 32 9\<rparr>"

theorem process_auth_req_queues_witness:
  "\<exists>p' v'. sqmp_process_auth_req env_ok 3 (Some 4)
       (enc_pkt (make_pkt SQMP_MSG_TYPE_AUTH_REQ 6) @ enc_auth_req demo_auth_req @ [0])
       (proto_demo SQMP_SESSION_STATE_AUTH) = Inr p'
     \<and> queue_inv p' [4] \<and> sessions p' 4 = Some v' \<and> s_auth_name v' = [99, 100]"
proof -
  have q: "queue_inv (proto_demo SQMP_SESSION_STATE_AUTH) []" by (simp add: proto_demo_def)
  have "take (unat (2 :: u8)) [99, 100 :: u8] = [99, 100]" by simp
  with process_auth_req_queues [of env_ok "proto_demo SQMP_SESSION_STATE_AUTH" 3 4
      "proto_session SQMP_SESSION_STATE_AUTH" "make_pkt SQMP_MSG_TYPE_AUTH_REQ 6" demo_auth_req "[]" "[0]"] q
  show ?thesis by (auto simp: demo_auth_req_def wf_auth_req_def good_auth_req_def auth_req_name_def)
qed

text \<open>The accesses an authentication request makes stay inside the received buffer and the
  session's arrays.\<close>

definition auth_req_fits :: "bytes \<Rightarrow> bool" where
  "auth_req_fits d \<longleftrightarrow> 79 \<le> length d \<and> unat (d ! 12) \<le> 32
     \<and> (of_le16 (take 2 (drop 77 d)) = 32 \<longrightarrow> 111 \<le> length d)"

text \<open>C11: the handler of \<^verbatim>\<open>AUTH_REQ\<close> checks neither the packet's length nor \<^verbatim>\<open>username_len\<close>. For a
  session in state AUTH it completes exactly when the buffer holds the whole struct and the key it
  announces and the name has at most 32 bytes; on every other packet it reads past the packet or
  writes past the session's \<^verbatim>\<open>auth_username\<close>. The dispatcher only checks for 12 bytes.\<close>

theorem process_auth_req_safe_iff:
  assumes "sessions p a = Some v" and "wf_session v" and "s_state v = SQMP_SESSION_STATE_AUTH"
    and "queue_inv p as" and "a \<notin> set as"
  shows "(\<exists>p'. sqmp_process_auth_req env st (Some a) d p = Inr p') \<longleftrightarrow> auth_req_fits d"
proof -
  have q: "\<exists>p'. auth_queue_enqueue a (put_session a w p) = Inr p'" for w
    using enqueue_spec [of "put_session a w p" as a w] assms(4,5) by (auto simp: queue_inv_put_other)
  show ?thesis
  proof
    assume "\<exists>p'. sqmp_process_auth_req env st (Some a) d p = Inr p'"
    then show "auth_req_fits d"
      using assms(1-3)
      by (auto simp: sqmp_process_auth_req_def get_defs bindr_eq_Inr_iff memcpy_def rdn_def rd8_def rd16_def
          wf_session_def auth_req_fits_def split: if_splits)
  next
    assume "auth_req_fits d"
    then show "\<exists>p'. sqmp_process_auth_req env st (Some a) d p = Inr p'"
      using assms(1-3) q
      by (simp add: sqmp_process_auth_req_def get_defs memcpy_def rdn_def rd8_def rd16_def
          wf_session_def auth_req_fits_def min.coboundedI2)
  qed
qed

theorem process_auth_req_safe_iff_witness:
  "\<not> (\<exists>p'. sqmp_process_auth_req env_ok 3 (Some 4) (zeros 13) (proto_demo SQMP_SESSION_STATE_AUTH) = Inr p')
   \<and> (\<exists>p'. sqmp_process_auth_req env_ok 3 (Some 4) (zeros 79) (proto_demo SQMP_SESSION_STATE_AUTH) = Inr p')"
proof -
  have s: "sessions (proto_demo SQMP_SESSION_STATE_AUTH) 4 = Some (proto_session SQMP_SESSION_STATE_AUTH)"
    "wf_session (proto_session SQMP_SESSION_STATE_AUTH)" "queue_inv (proto_demo SQMP_SESSION_STATE_AUTH) []"
    by (simp_all add: proto_session_def wf_session_def new_session_def proto_demo_def)
  have two: "replicate 2 x = [x, x]" for x :: u8 by (simp add: numeral_2_eq_2)
  show ?thesis
    using process_auth_req_safe_iff [OF s(1,2) _ s(3), of env_ok 3 "zeros 13"]
      process_auth_req_safe_iff [OF s(1,2) _ s(3), of env_ok 3 "zeros 79"]
    by (simp add: auth_req_fits_def zeros_def two of_le16_def)
qed

section \<open>Key requests\<close>

definition key_resp_pkt :: "u32 \<Rightarrow> bytes \<Rightarrow> bytes \<Rightarrow> bytes" where
  "key_resp_pkt sid name key = enc_pkt (make_pkt SQMP_MSG_TYPE_KEY_RESP sid)
     @ enc_key_resp \<lparr>key_resp_username_len = of_nat (length name), key_resp_username = name @ zeros (32 - length name),
          key_resp_pubkey_len = 32, key_resp_public_key = key\<rparr>"

lemma drop_pkt_key_req:
  "wf_pkt h \<Longrightarrow> drop 13 (enc_pkt h @ enc_key_req m @ r) = key_req_username m @ r"
  using length_enc_pkt [of h] by (simp add: enc_key_req_def)

lemma registry_map_key_length:
  "wf_registry reg \<Longrightarrow> registry_map reg n = Some (s, k) \<Longrightarrow> length k = 32"
  unfolding registry_map_def
  by (drule map_of_SomeD) (auto simp: wf_registry_def wf_entry_def live_entries_def)

lemma key_req_found:
  assumes "healthy env" and "live_stream p st" and "sessions p a = Some v" and "wf_registry (g_registry p)"
    and "wf_pkt h" and "wf_key_req m" and "unat (key_req_username_len m) \<le> 32"
    and "s_state v = SQMP_SESSION_STATE_CONN_ESTABLISHED"
    and "registry_map (g_registry p) (take (unat (key_req_username_len m)) (key_req_username m)) = Some (s, key)"
  shows "sqmp_process_key_req env st (Some a) (enc_pkt h @ enc_key_req m @ r) p = Inr (after_send st
    (key_resp_pkt (pkt_session_id h) (take (unat (key_req_username_len m)) (key_req_username m)) key)
    (p\<lparr>qs_allocs := Suc (qs_allocs p)\<rparr>))"
proof -
  let ?name = "take (unat (key_req_username_len m)) (key_req_username m)"
  have len: "length (key_req_username m) = 32" using assms(6) by (simp add: wf_key_req_def)
  have name: "length ?name = unat (key_req_username_len m)" using len assms(7) by simp
  have "length key = 32" using registry_map_key_length assms(4,9) by blast
  moreover have "sqmp_registry_get_pubkey (g_registry p) (drop 13 (enc_pkt h @ enc_key_req m @ r)) (key_req_username_len m)
      = Inr (Some key)"
    using reg.get_key_spec [OF assms(4), of "key_req_username_len m" "key_req_username m @ r"] assms(5,7,9) len
    by (subst drop_pkt_key_req) simp_all
  ultimately show ?thesis
    using assms(1-3,5-8) name len
    by (simp add: sqmp_process_key_req_def key_req_reads pkt_reads alloc_healthy memcpy_def key_resp_pkt_def
        send_pkt_live enc_key_resp_def zeros_def)
qed

text \<open>C12: a key request is answered with the registered key. For an established session and a
  name of at most 32 bytes the server replies on the same stream, with the session id of the
  request, the name and exactly the key the registry holds for it, or with an \<^verbatim>\<open>ERROR\<close> "user not
  found"; before the session is established it replies with an \<^verbatim>\<open>ERROR\<close>. Nothing else changes.\<close>

theorem process_key_req_replies:
  fixes r :: bytes
  assumes "healthy env" and "live_stream p st" and "sessions p a = Some v" and "wf_registry (g_registry p)"
    and "wf_pkt h" and "wf_key_req m" and "unat (key_req_username_len m) \<le> 32"
  defines "d \<equiv> enc_pkt h @ enc_key_req m @ r"
    and "name \<equiv> take (unat (key_req_username_len m)) (key_req_username m)"
  shows "\<exists>p'. sqmp_process_key_req env st (Some a) d p = Inr p' \<and> sessions p' = sessions p
    \<and> g_registry p' = g_registry p \<and> sent_packets p' = sent_packets p @ [(handle_of p st,
        if s_state v \<noteq> SQMP_SESSION_STATE_CONN_ESTABLISHED
        then error_pkt (s_session_id v) SQMP_ERROR_CODE_UNEXPECTED_MSG ''unexpected KEY_REQ''
        else (case registry_map (g_registry p) name of
            None \<Rightarrow> error_pkt (s_session_id v) SQMP_ERROR_CODE_USER_NOT_FOUND ''user not found''
          | Some (s, key) \<Rightarrow> key_resp_pkt (pkt_session_id h) name key))]"
proof (cases "s_state v = SQMP_SESSION_STATE_CONN_ESTABLISHED")
  case False
  then show ?thesis using assms(1-3) by (simp add: sqmp_process_key_req_def sqmp_send_error_live)
next
  case True
  have len: "length (key_req_username m) = 32" using assms(6) by (simp add: wf_key_req_def)
  have get: "sqmp_registry_get_pubkey (g_registry p) (drop 13 d) (key_req_username_len m)
      = Inr (map_option snd (registry_map (g_registry p) name))"
    using reg.get_key_spec [OF assms(4), of "key_req_username_len m" "key_req_username m @ r"] assms(5,7) len
    unfolding d_def name_def by (subst drop_pkt_key_req) simp_all
  show ?thesis
  proof (cases "registry_map (g_registry p) name")
    case None
    with True get show ?thesis
      using assms(1-3,5,6) by (simp add: sqmp_process_key_req_def d_def key_req_reads sqmp_send_error_live)
  next
    case (Some sk)
    then obtain s key where sk: "registry_map (g_registry p) name = Some (s, key)" by (cases sk) auto
    show ?thesis
      using key_req_found [OF assms(1-7) True, of s key r] sk True by (simp add: d_def name_def)
  qed
qed

theorem process_key_req_replies_witness:
  "\<exists>p'. sqmp_process_key_req env_ok 3 (Some 4)
       (enc_pkt (make_pkt SQMP_MSG_TYPE_KEY_REQ 6) @ enc_key_req \<lparr>key_req_username_len = 1,
          key_req_username = 97 # zeros 31\<rparr> @ [0]) (proto_demo SQMP_SESSION_STATE_CONN_ESTABLISHED) = Inr p'
     \<and> sent_packets p' = [(9, key_resp_pkt 6 [97] (zeros 32))]"
  using process_key_req_replies [of env_ok "proto_demo SQMP_SESSION_STATE_CONN_ESTABLISHED" 3 4 _
      "make_pkt SQMP_MSG_TYPE_KEY_REQ 6" "\<lparr>key_req_username_len = 1, key_req_username = 97 # zeros 31\<rparr>" "[0]"]
  by (auto simp: wf_key_req_def wf_one_user_registry one_user_registry_map)

section \<open>Relaying messages\<close>

text \<open>The packet the recipient gets for a message \<open>m\<close> sent by the user \<open>sender\<close>.\<close>

definition chat_deliver_pkt :: "u32 \<Rightarrow> bytes \<Rightarrow> sqmp_msg_chat \<Rightarrow> bytes" where
  "chat_deliver_pkt sid sender m = enc_pkt (make_pkt SQMP_MSG_TYPE_CHAT_DELIVER sid)
     @ enc_chat (m\<lparr>chat_name_len := of_nat (length sender), chat_name := sender @ zeros (32 - length sender)\<rparr>)"

lemma drop_pkt_chat:
  "wf_pkt h \<Longrightarrow> \<exists>q. drop 13 (enc_pkt h @ enc_chat m @ r) = chat_name m @ q"
  using length_enc_pkt [of h] by (simp add: enc_chat_def)

lemma length_enc_chat: "wf_chat m \<Longrightarrow> length (enc_chat m) = 307 + length (chat_ciphertext m)"
  by (simp add: enc_chat_def wf_chat_def)

lemma chat_deliver_fields:
  assumes "length sender = unat n" and "unat n \<le> 32"
  shows "\<lparr>chat_name_len = n, chat_name = sender @ drop (unat n) (zeros 32), chat_enc_key_len = chat_enc_key_len m,
      chat_encrypted_key = chat_encrypted_key m, chat_nonce = chat_nonce m,
      chat_ciphertext_len = chat_ciphertext_len m, chat_ciphertext = chat_ciphertext m\<rparr>
    = m\<lparr>chat_name_len := of_nat (length sender), chat_name := sender @ zeros (32 - length sender)\<rparr>"
  using assms by (simp add: zeros_def)

lemma chat_lookup:
  assumes "wf_registry reg" and "wf_pkt h" and "wf_chat m" and "unat (chat_name_len m) \<le> 32"
  shows "sqmp_registry_find reg (drop 13 (enc_pkt h @ enc_chat m @ r)) (chat_name_len m)
     = Inr (Option.bind (registry_map reg (take (unat (chat_name_len m)) (chat_name m))) fst)"
proof -
  obtain q where q: "drop 13 (enc_pkt h @ enc_chat m @ r) = chat_name m @ q"
    using drop_pkt_chat assms(2) by blast
  show ?thesis
    unfolding q using reg.find_spec [OF assms(1), of "chat_name_len m" "chat_name m @ q"] assms(3,4)
    by (simp add: wf_chat_def)
qed

lemma chat_relayed:
  assumes "healthy env" and "live_stream p t" and "sessions p a = Some v" and "wf_session v"
    and "wf_registry (g_registry p)" and "wf_pkt h" and "wf_chat m" and "unat (chat_name_len m) \<le> 32"
    and "unat (chat_ciphertext_len m) = length (chat_ciphertext m)" and "length (chat_ciphertext m) < 2 ^ 32 - 319"
    and "s_state v = SQMP_SESSION_STATE_CONN_ESTABLISHED"
    and "registry_map (g_registry p) (take (unat (chat_name_len m)) (chat_name m)) = Some (Some t, key)"
  shows "sqmp_process_chat_send env st (Some a) (enc_pkt h @ enc_chat m @ r) p = Inr (after_send t
    (chat_deliver_pkt (pkt_session_id h) (s_name v) m) (p\<lparr>qs_allocs := Suc (qs_allocs p)\<rparr>))"
proof -
  have name: "length (s_name v) = unat (s_username_len v)" "unat (s_username_len v) \<le> 32"
    using assms(4) by (simp_all add: s_name_def wf_session_def)
  have rd: "rdn (s_username v) 0 (unat (s_username_len v)) = Inr (s_name v)"
    using assms(4) by (simp add: rdn_def s_name_def wf_session_def)
  have "length (chat_encrypted_key m) = 256" "length (chat_nonce m) = 12" using assms(7) by (simp_all add: wf_chat_def)
  then have "wf_chat (m\<lparr>chat_name_len := n, chat_name := s_name v @ zeros (32 - length (s_name v))\<rparr>)" for n
    using name by (simp add: wf_chat_def)
  then show ?thesis
    using assms(1-3,6,7,9-12) chat_lookup [OF assms(5-8), of r] name rd
      \<open>length (chat_encrypted_key m) = 256\<close>
    by (simp add: sqmp_process_chat_send_def chat_reads pkt_reads alloc_healthy memcpy_def
        sqmp_stream_send_live chat_deliver_pkt_def length_enc_chat chat_deliver_fields Let_def)
qed

text \<open>C7: the server relays messages unchanged. For an established session and a well-formed
  \<^verbatim>\<open>CHAT_SEND\<close> whose recipient is registered with an open stream, exactly one packet is sent, on
  the recipient's stream: a \<^verbatim>\<open>CHAT_DELIVER\<close> with the name under which the sender authenticated and
  the key, nonce and ciphertext of the message, byte for byte. When the recipient is not
  registered the sender gets an \<^verbatim>\<open>ERROR\<close> "recipient not online", and before the session is
  established an \<^verbatim>\<open>ERROR\<close> "unexpected CHAT_SEND"; nothing is relayed then.\<close>

theorem process_chat_send_relays:
  fixes r :: bytes
  assumes "healthy env" and "live_stream p st" and "sessions p a = Some v" and "wf_session v"
    and "wf_registry (g_registry p)" and "wf_pkt h" and "wf_chat m" and "unat (chat_name_len m) \<le> 32"
    and "unat (chat_ciphertext_len m) = length (chat_ciphertext m)" and "length (chat_ciphertext m) < 2 ^ 32 - 319"
    and "\<And>rst key. registry_map (g_registry p) (take (unat (chat_name_len m)) (chat_name m)) = Some (rst, key) \<Longrightarrow>
      \<exists>t. rst = Some t \<and> live_stream p t"
  defines "d \<equiv> enc_pkt h @ enc_chat m @ r"
    and "recipient \<equiv> registry_map (g_registry p) (take (unat (chat_name_len m)) (chat_name m))"
  shows "\<exists>p'. sqmp_process_chat_send env st (Some a) d p = Inr p' \<and> sessions p' = sessions p
    \<and> g_registry p' = g_registry p \<and> sent_packets p' = sent_packets p @
      [if s_state v \<noteq> SQMP_SESSION_STATE_CONN_ESTABLISHED
       then (handle_of p st, error_pkt (s_session_id v) SQMP_ERROR_CODE_UNEXPECTED_MSG ''unexpected CHAT_SEND'')
       else case recipient of
         None \<Rightarrow> (handle_of p st, error_pkt (s_session_id v) SQMP_ERROR_CODE_USER_NOT_FOUND ''recipient not online'')
       | Some (rst, key) \<Rightarrow> (handle_of p (the rst), chat_deliver_pkt (pkt_session_id h) (s_name v) m)]"
proof (cases "s_state v = SQMP_SESSION_STATE_CONN_ESTABLISHED")
  case False
  then show ?thesis using assms(1-3) by (simp add: sqmp_process_chat_send_def sqmp_send_error_live)
next
  case True
  note find = chat_lookup [OF assms(5-8), of r, folded d_def recipient_def]
  show ?thesis
  proof (cases recipient)
    case None
    then show ?thesis
      using True find assms(1-3,6,7)
      by (simp add: sqmp_process_chat_send_def d_def chat_reads sqmp_send_error_live)
  next
    case (Some rk)
    then obtain t key where t: "recipient = Some (Some t, key)" "live_stream p t"
      using assms(11) by (cases rk) (auto simp: recipient_def)
    then show ?thesis
      using chat_relayed [OF assms(1) t(2) assms(3-10) True, of key st r] True by (simp add: d_def recipient_def)
  qed
qed

definition demo_chat :: sqmp_msg_chat where
  "demo_chat = \<lparr>chat_name_len = 1, chat_name = 97 # zeros 31, chat_enc_key_len = 32,
     chat_encrypted_key = zeros 256, chat_nonce = zeros 12, chat_ciphertext_len = 2, chat_ciphertext = [7, 8]\<rparr>"

lemma demo_chat_simps [simp]:
  "wf_chat demo_chat" "chat_name_len demo_chat = 1" "chat_name demo_chat = 97 # zeros 31"
  "chat_ciphertext demo_chat = [7, 8]" "chat_ciphertext_len demo_chat = 2"
  by (simp_all add: demo_chat_def wf_chat_def)

theorem process_chat_send_relays_witness:
  "\<exists>p'. sqmp_process_chat_send env_ok 3 (Some 4)
       (enc_pkt (make_pkt SQMP_MSG_TYPE_CHAT_SEND 6) @ enc_chat demo_chat @ [0])
       (proto_demo SQMP_SESSION_STATE_CONN_ESTABLISHED) = Inr p'
     \<and> sent_packets p' = [(10, chat_deliver_pkt 6 [98] demo_chat)]"
  using process_chat_send_relays [of env_ok "proto_demo SQMP_SESSION_STATE_CONN_ESTABLISHED" 3 4 _
      "make_pkt SQMP_MSG_TYPE_CHAT_SEND 6" demo_chat "[0]"]
  by (auto simp: wf_one_user_registry one_user_registry_map)

text \<open>C31: \<^verbatim>\<open>CHAT_SEND\<close> believes the packet's own \<^verbatim>\<open>ciphertext_len\<close>. Whenever an established session
  sends a message to a registered user and announces more ciphertext than the buffer holds, the
  server reads past the end of the received packet, and what it reads there would be relayed.\<close>

theorem process_chat_send_overread:
  fixes r :: bytes
  assumes "healthy env" and "sessions p a = Some v" and "wf_session v"
    and "s_state v = SQMP_SESSION_STATE_CONN_ESTABLISHED" and "wf_registry (g_registry p)"
    and "wf_pkt h" and "wf_chat m" and "unat (chat_name_len m) \<le> 32"
    and "registry_map (g_registry p) (take (unat (chat_name_len m)) (chat_name m)) = Some (Some t, key)"
    and "length (chat_ciphertext m @ r) < unat (chat_ciphertext_len m)"
  shows "sqmp_process_chat_send env st (Some a) (enc_pkt h @ enc_chat m @ r) p = Inl OobRead"
proof -
  have "length (enc_pkt h @ enc_chat m @ r) = 319 + length (chat_ciphertext m @ r)"
    using length_enc_pkt [OF assms(6)] assms(7) by (simp add: enc_chat_def wf_chat_def)
  then have "get_chat_ciphertext (enc_pkt h @ enc_chat m @ r) (unat (chat_ciphertext_len m)) = Inl OobRead"
    using assms(10) unfolding get_chat_ciphertext_def rdn_def by (simp del: length_append)
  moreover have "rdn (s_username v) 0 (unat (s_username_len v)) = Inr (s_name v)" "length (s_name v) \<le> 32"
    using assms(3) by (simp_all add: rdn_def s_name_def wf_session_def)
  ultimately show ?thesis
    using assms(1-4,6,7) chat_lookup [OF assms(5-8), of r] assms(9)
    by (simp add: sqmp_process_chat_send_def chat_reads pkt_reads alloc_healthy memcpy_def)
qed

theorem process_chat_send_overread_witness:
  "sqmp_process_chat_send env_ok 3 (Some 4)
     (enc_pkt (make_pkt SQMP_MSG_TYPE_CHAT_SEND 6) @ enc_chat (demo_chat\<lparr>chat_ciphertext_len := 4\<rparr>) @ [0])
     (proto_demo SQMP_SESSION_STATE_CONN_ESTABLISHED) = Inl OobRead"
  by (rule process_chat_send_overread [where v = "proto_session SQMP_SESSION_STATE_CONN_ESTABLISHED" and t = 5])
     (simp_all add: wf_one_user_registry one_user_registry_map demo_chat_def wf_chat_def)

section \<open>What handlers may change\<close>

text \<open>The part of the process state that sending does not touch.\<close>

definition same_app :: "'a sqmp_state_scheme \<Rightarrow> 'a sqmp_state_scheme \<Rightarrow> bool" where
  "same_app p p' \<longleftrightarrow> sessions p' = sessions p \<and> g_registry p' = g_registry p
     \<and> g_next_session_id p' = g_next_session_id p \<and> g_auth_queue_head p' = g_auth_queue_head p
     \<and> g_auth_queue_tail p' = g_auth_queue_tail p \<and> g_auth_queue_sem p' = g_auth_queue_sem p
     \<and> sqmp_state.more p' = sqmp_state.more p \<and> qs_ctxs p' = qs_ctxs p \<and> qs_conns p' = qs_conns p
     \<and> qs_streams p' = qs_streams p \<and> console p' = console p"

lemma same_app_refl [simp]: "same_app p p"
  by (simp add: same_app_def)

lemma same_app_trans: "same_app p q \<Longrightarrow> same_app q r \<Longrightarrow> same_app p r"
  by (simp add: same_app_def)

lemma same_app_allocs [simp]:
  "same_app (p\<lparr>qs_allocs := n\<rparr>) q \<longleftrightarrow> same_app p q" "same_app p (q\<lparr>qs_allocs := n\<rparr>) \<longleftrightarrow> same_app p q"
  by (simp_all add: same_app_def)

lemma same_app_stream_send:
  "sqmp_stream_send env st buf n p = Inr (r, p') \<Longrightarrow> same_app p p'"
  by (auto simp: sqmp_stream_send_def alloc_def api_call_def same_app_def bindr_eq_Inr_iff Let_def
      split: if_splits)

lemma same_app_send_pkt: "send_pkt env st buf p = Inr p' \<Longrightarrow> same_app p p'"
  by (auto simp: send_pkt_def bindr_eq_Inr_iff dest: same_app_stream_send)

lemma same_app_send_bye: "sqmp_send_bye env st s p = Inr p' \<Longrightarrow> same_app p p'"
  by (auto simp: sqmp_send_bye_def bindr_eq_Inr_iff dest: same_app_send_pkt)

lemma same_app_send_error: "sqmp_send_error env st s c t p = Inr p' \<Longrightarrow> same_app p p'"
  by (auto simp: sqmp_send_error_def bindr_eq_Inr_iff Let_def dest: same_app_send_pkt)

lemmas same_app_sends = same_app_stream_send same_app_send_pkt same_app_send_bye same_app_send_error

text \<open>How a session evolves: its state only moves forward and its arrays keep their lengths.\<close>

definition session_evolves :: "sqmp_session \<Rightarrow> sqmp_session \<Rightarrow> bool" where
  "session_evolves v v' \<longleftrightarrow> s_state v \<le> s_state v' \<and> (wf_session v \<longrightarrow> wf_session v')"

definition sessions_evolve :: "'a sqmp_state_scheme \<Rightarrow> 'a sqmp_state_scheme \<Rightarrow> bool" where
  "sessions_evolve p p' \<longleftrightarrow> dom (sessions p') = dom (sessions p) \<and>
     (\<forall>a v v'. sessions p a = Some v \<longrightarrow> sessions p' a = Some v' \<longrightarrow> session_evolves v v')"

lemma session_evolves_refl [simp]: "session_evolves v v"
  by (simp add: session_evolves_def)

lemma session_evolves_trans: "session_evolves u v \<Longrightarrow> session_evolves v w \<Longrightarrow> session_evolves u w"
  by (auto simp: session_evolves_def)

lemma sessions_evolve_same: "sessions p' = sessions p \<Longrightarrow> sessions_evolve p p'"
  by (auto simp: sessions_evolve_def)

lemma sessions_evolve_same_app: "same_app p p' \<Longrightarrow> sessions_evolve p p'"
  by (simp add: sessions_evolve_same same_app_def)

lemma sessions_evolve_trans:
  assumes "sessions_evolve p q" and "sessions_evolve q r"
  shows "sessions_evolve p r"
  unfolding sessions_evolve_def
proof (intro conjI allI impI)
  show "dom (sessions r) = dom (sessions p)" using assms by (simp add: sessions_evolve_def)
  fix a v w assume v: "sessions p a = Some v" and w: "sessions r a = Some w"
  then obtain u where u: "sessions q a = Some u" using assms(1) unfolding sessions_evolve_def by blast
  then show "session_evolves v w"
    using assms v w session_evolves_trans unfolding sessions_evolve_def by blast
qed

lemma sessions_evolve_upd:
  assumes "sessions p a = Some v" and "session_evolves v v'" and "sessions p' = (sessions p)(a \<mapsto> v')"
  shows "sessions_evolve p p'"
  using assms by (auto simp: sessions_evolve_def)

lemma session_evolves_next: "session_evolves v (v\<lparr>s_next := n\<rparr>)"
  by (simp add: session_evolves_def wf_session_def)

lemma enqueue_evolves:
  assumes "auth_queue_enqueue a p = Inr p'"
  shows "sessions_evolve p p' \<and> g_registry p' = g_registry p \<and> sqmp_state.more p' = sqmp_state.more p"
proof -
  obtain v where v: "sessions p a = Some v"
    using assms by (auto simp: auth_queue_enqueue_def bindr_eq_Inr_iff get_session_eq_Inr_iff)
  let ?p1 = "put_session a (v\<lparr>s_next := None\<rparr>) p"
  have e1: "sessions_evolve p ?p1" using v session_evolves_next by (intro sessions_evolve_upd) auto
  have "sessions_evolve ?p1 p' \<and> g_registry p' = g_registry p \<and> sqmp_state.more p' = sqmp_state.more p"
  proof (cases "g_auth_queue_tail p")
    case None
    then show ?thesis
      using assms v by (auto simp: auth_queue_enqueue_def put_session_def intro!: sessions_evolve_same)
  next
    case (Some t)
    then obtain tv where tv: "sessions ?p1 t = Some tv"
      using assms v by (auto simp: auth_queue_enqueue_def bindr_eq_Inr_iff get_session_eq_Inr_iff Let_def)
    then have "sessions p' = (sessions ?p1)(t \<mapsto> tv\<lparr>s_next := Some a\<rparr>)" "g_registry p' = g_registry p"
      "sqmp_state.more p' = sqmp_state.more p"
      using assms v Some by (auto simp: auth_queue_enqueue_def Let_def put_session_def)
    then show ?thesis using sessions_evolve_upd [OF tv session_evolves_next] by blast
  qed
  then show ?thesis using sessions_evolve_trans [OF e1] by blast
qed

text \<open>The handlers that the server runs for a packet other than \<^verbatim>\<open>BYE\<close>.\<close>

definition handler_frame :: "'a sqmp_state_scheme \<Rightarrow> 'a sqmp_state_scheme \<Rightarrow> bool" where
  "handler_frame p p' \<longleftrightarrow> sessions_evolve p p' \<and> g_registry p' = g_registry p \<and> sqmp_state.more p' = sqmp_state.more p"

lemma handler_frame_same_app: "same_app p p' \<Longrightarrow> handler_frame p p'"
  by (simp add: handler_frame_def sessions_evolve_same_app) (simp add: same_app_def)

lemma hello_frame:
  assumes "sqmp_process_hello env st s d p = Inr p'"
  shows "handler_frame p p'"
proof -
  obtain a v where v: "s = Some a" "sessions p a = Some v"
    using assms by (auto simp: sqmp_process_hello_def bindr_eq_Inr_iff get_session_eq_Inr_iff)
  show ?thesis
  proof (cases "same_app p p'")
    case True
    then show ?thesis by (rule handler_frame_same_app)
  next
    case False
    let ?v = "v\<lparr>s_session_id := g_next_session_id p\<rparr>"
    obtain q where "same_app (put_session a ?v (p\<lparr>g_next_session_id := g_next_session_id p + 1\<rparr>)) q"
      "p' = put_session a (?v\<lparr>s_state := SQMP_SESSION_STATE_AUTH\<rparr>) q" "s_state v = SQMP_SESSION_STATE_HELLO"
      using assms False v
      by (auto simp: sqmp_process_hello_def bindr_eq_Inr_iff Let_def
          dest!: same_app_sends intro: same_app_trans split: if_splits)
    moreover have "session_evolves v (?v\<lparr>s_state := SQMP_SESSION_STATE_AUTH\<rparr>)"
      using calculation(3) by (simp add: session_evolves_def wf_session_def session_state_order)
    ultimately show ?thesis
      using sessions_evolve_upd [OF v(2), of "?v\<lparr>s_state := SQMP_SESSION_STATE_AUTH\<rparr>" p']
      by (simp add: handler_frame_def same_app_def) (simp add: put_session_def)
  qed
qed

lemma memcpy_InrD: "memcpy dst src = Inr b \<Longrightarrow> length b = length dst \<and> length src \<le> length dst"
  by (auto simp: memcpy_def split: if_splits)

lemma rdn_InrD: "rdn b off n = Inr x \<Longrightarrow> length x = n"
  by (auto simp: rdn_def split: if_splits)

lemma enqueue_frame:
  assumes "auth_queue_enqueue a (put_session a v' p) = Inr p'" and "sessions p a = Some v" and "session_evolves v v'"
  shows "handler_frame p p'"
proof -
  have "sessions_evolve p (put_session a v' p)" using assms by (intro sessions_evolve_upd) auto
  then show ?thesis
    using enqueue_evolves [OF assms(1)] sessions_evolve_trans by (auto simp: handler_frame_def) (auto simp: put_session_def)
qed

lemma auth_req_frame:
  assumes "sqmp_process_auth_req env st s d p = Inr p'"
  shows "handler_frame p p'"
proof -
  obtain a v where v: "s = Some a" "sessions p a = Some v"
    using assms by (auto simp: sqmp_process_auth_req_def bindr_eq_Inr_iff get_session_eq_Inr_iff)
  then show ?thesis
    using assms
    by (auto simp: sqmp_process_auth_req_def bindr_eq_Inr_iff get_defs session_evolves_def wf_session_def
        dest!: memcpy_InrD rdn_InrD same_app_sends elim!: enqueue_frame intro: handler_frame_same_app split: if_splits)
qed

lemma key_req_frame: "sqmp_process_key_req env st s d p = Inr p' \<Longrightarrow> handler_frame p p'"
  by (rule handler_frame_same_app)
     (auto simp: sqmp_process_key_req_def bindr_eq_Inr_iff Let_def alloc_def split: if_splits option.splits
       dest!: same_app_sends intro: same_app_trans)

lemma chat_send_frame: "sqmp_process_chat_send env st s d p = Inr p' \<Longrightarrow> handler_frame p p'"
  by (rule handler_frame_same_app)
     (auto simp: sqmp_process_chat_send_def bindr_eq_Inr_iff Let_def alloc_def split: if_splits
       dest!: same_app_sends intro: same_app_trans)

lemmas handler_frames = hello_frame auth_req_frame key_req_frame chat_send_frame

section \<open>Server shutdown\<close>

definition registered_streams :: "registry \<Rightarrow> addr list" where
  "registered_streams reg = List.map_filter re_stream (live_entries reg)"

definition conn_handle_of :: "'a quic_state_scheme \<Rightarrow> addr \<Rightarrow> HQUIC" where
  "conn_handle_of p st = (case stream_chain p (Some st) of Inl e \<Rightarrow> 0 | Inr (x, c, q) \<Rightarrow> conn_handle c)"

lemma registered_streams_simps [simp]:
  "registered_streams [] = []"
  "registered_streams (e # es) = (case re_stream e of
     None \<Rightarrow> registered_streams es
   | Some t \<Rightarrow> if re_in_use e = 0 then registered_streams es else t # registered_streams es)"
  by (auto simp: registered_streams_def live_entries_def List.map_filter_def split: option.splits)

lemma send_bye_entries_live:
  assumes "healthy env" and "\<And>t. t \<in> set (registered_streams es) \<Longrightarrow> live_stream p t"
  shows "\<exists>p'. send_bye_entries env es p = Inr p' \<and> same_app p p'
    \<and> sent_packets p' = sent_packets p @ map (\<lambda>t. (handle_of p t, bye_pkt 0)) (registered_streams es)"
  using assms(2)
proof (induction es arbitrary: p)
  case Nil
  then show ?case by simp
next
  case (Cons e es)
  show ?case
  proof (cases "re_in_use e \<noteq> 0 \<and> re_stream e \<noteq> None")
    case False
    then show ?thesis using Cons by (auto split: option.splits)
  next
    case True
    then obtain t where t: "re_stream e = Some t" by blast
    let ?p1 = "after_send t (bye_pkt 0) p"
    have "send_pkt env (Some t) (bye_pkt 0) p = Inr ?p1"
      using True t Cons.prems assms(1) by (intro send_pkt_live) (simp_all add: bye_pkt_def)
    moreover have "same_app p ?p1" by (simp add: same_app_def after_send_def)
    moreover obtain p' where "send_bye_entries env es ?p1 = Inr p'" "same_app ?p1 p'"
      "sent_packets p' = sent_packets ?p1 @ map (\<lambda>t. (handle_of p t, bye_pkt 0)) (registered_streams es)"
      using Cons.IH [of ?p1] Cons.prems True t by auto
    ultimately show ?thesis
      using True t same_app_trans by (auto simp: bye_pkt_def)
  qed
qed

lemma shutdown_entries_live:
  assumes "\<And>t. t \<in> set (registered_streams es) \<Longrightarrow> live_stream p t"
  shows "shutdown_entries es p = Inr (p\<lparr>qs_calls := qs_calls p
    @ map (\<lambda>t. ConnectionShutdown (conn_handle_of p t)) (registered_streams es)\<rparr>)"
  using assms
proof (induction es arbitrary: p)
  case Nil
  then show ?case by simp
next
  case (Cons e es)
  show ?case
  proof (cases "re_in_use e \<noteq> 0 \<and> re_stream e \<noteq> None")
    case False
    then show ?thesis using Cons by (auto split: option.splits)
  next
    case True
    then obtain t where t: "re_stream e = Some t" by blast
    then obtain x c q where chain: "stream_chain p (Some t) = Inr (x, c, q)"
      using Cons.prems [of t] True by (auto simp: live_stream_def)
    have chains: "stream_chain (p\<lparr>qs_calls := k\<rparr>) = stream_chain p" for k
      by (simp add: fun_eq_iff stream_chain_def)
    have "live_stream (p\<lparr>qs_calls := k\<rparr>) u" if "u \<in> set (registered_streams es)" for u k
      using Cons.prems True t that by (simp add: live_stream_def chains)
    then show ?thesis
      using Cons.IH True t chain by (simp add: chains conn_handle_of_def api_do_def)
  qed
qed

text \<open>C32: an orderly shutdown reaches every user. When every stream in the registry is still open,
  \<^verbatim>\<open>sqmp_registry_send_bye_all\<close> sends exactly one \<^verbatim>\<open>BYE\<close> on each registered stream, in slot order,
  and nothing else, and \<^verbatim>\<open>sqmp_registry_shutdown_connections\<close> then shuts down the connection of
  each of them.\<close>

theorem shutdown_reaches_every_user:
  assumes "healthy env" and "\<And>t. t \<in> set (registered_streams (g_registry p)) \<Longrightarrow> live_stream p t"
  shows "\<exists>p1 p2. sqmp_registry_send_bye_all env p = Inr p1
    \<and> sent_packets p1 = sent_packets p @ map (\<lambda>t. (handle_of p t, bye_pkt 0)) (registered_streams (g_registry p))
    \<and> g_registry p1 = g_registry p
    \<and> sqmp_registry_shutdown_connections p1 = Inr p2
    \<and> qs_calls p2 = qs_calls p1 @ map (\<lambda>t. ConnectionShutdown (conn_handle_of p t)) (registered_streams (g_registry p))"
proof -
  obtain p1 where p1: "send_bye_entries env (g_registry p) p = Inr p1" "same_app p p1"
    "sent_packets p1 = sent_packets p @ map (\<lambda>t. (handle_of p t, bye_pkt 0)) (registered_streams (g_registry p))"
    using send_bye_entries_live [OF assms] by blast
  have chain: "stream_chain p1 = stream_chain p"
    using p1(2) unfolding same_app_def by (intro ext) (simp add: stream_chain_def)
  then have "live_stream p1 t" if "t \<in> set (registered_streams (g_registry p))" for t
    using assms(2) [OF that] by (simp add: live_stream_def)
  with p1 chain show ?thesis
    by (simp add: sqmp_registry_send_bye_all_def sqmp_registry_shutdown_connections_def same_app_def
        shutdown_entries_live conn_handle_of_def)
qed

theorem shutdown_reaches_every_user_witness:
  "\<exists>p1. sqmp_registry_send_bye_all env_ok (proto_demo SQMP_SESSION_STATE_HELLO) = Inr p1
     \<and> sent_packets p1 = [(10, bye_pkt 0)]"
proof -
  have r: "registered_streams one_user_registry = [5]"
    by (simp add: registered_streams_def one_user_registry_def live_entries_def zero_entry_def List.map_filter_def)
  show ?thesis
    using shutdown_reaches_every_user [of env_ok "proto_demo SQMP_SESSION_STATE_HELLO"] by (auto simp: r)
qed

end
