(* ===== verification/Sqmp_Users.thy ===== *)
theory Sqmp_Users
  imports Sqmp_Wire
begin

text \<open>
  The user database: \<^verbatim>\<open>verify_credentials\<close> of \<^verbatim>\<open>src/server/server.c\<close> and the utility
  \<^verbatim>\<open>data/sqmp_add_user.c\<close>, which read and write lines \<^verbatim>\<open>username:sha256hex\<close> of a text file. A file is
  its bytes; SHA-256 is a parameter. The theorems relate the two programs: what the utility adds,
  the server accepts.
\<close>

section \<open>The C library calls\<close>

definition NL :: u8 where "NL = 10"
definition CR :: u8 where "CR = 13"
definition COLON :: u8 where "COLON = 58"

lemmas char_consts [simp] = NL_def CR_def COLON_def

text \<open>\<^verbatim>\<open>fgets(line, sz, f)\<close>: up to \<open>sz - 1\<close> bytes, up to and including a newline; the second
  component is the rest of the file.\<close>

fun fgets_loop :: "nat \<Rightarrow> bytes \<Rightarrow> bytes \<times> bytes" where
  "fgets_loop 0 f = ([], f)"
| "fgets_loop (Suc n) [] = ([], [])"
| "fgets_loop (Suc n) (c # f) =
     (if c = NL then ([c], f) else (c # fst (fgets_loop n f), snd (fgets_loop n f)))"

definition fgets :: "nat \<Rightarrow> bytes \<Rightarrow> (bytes \<times> bytes) option" where
  "fgets sz f = (if f = [] then None else Some (fgets_loop (sz - 1) f))"

lemma fgets_loop_append: "fst (fgets_loop n f) @ snd (fgets_loop n f) = f"
  by (induction n f rule: fgets_loop.induct) auto

lemma fgets_shorter: "fgets (Suc (Suc n)) f = Some (l, r) \<Longrightarrow> length r < length f"
  using fgets_loop_append [of "Suc n" f]
  by (cases f) (auto simp: fgets_def split: if_splits dest: arg_cong [where f = length])

lemma fgets_256_shorter: "fgets 256 f = Some (l, r) \<Longrightarrow> length r < length f"
  using fgets_shorter [of 254 f l r] by simp

text \<open>\<^verbatim>\<open>isspace\<close> in the C locale, and the value of a hexadecimal digit.\<close>

definition is_space :: "u8 \<Rightarrow> bool" where
  "is_space c \<longleftrightarrow> c = 32 \<or> (9 \<le> c \<and> c \<le> 13)"

definition hex_val :: "u8 \<Rightarrow> u32 option" where
  "hex_val c = (if 48 \<le> c \<and> c \<le> 57 then Some (ucast c - 48)
     else if 97 \<le> c \<and> c \<le> 102 then Some (ucast c - 87)
     else if 65 \<le> c \<and> c \<le> 70 then Some (ucast c - 55) else None)"

text \<open>\<^verbatim>\<open>sscanf(s, "%02x", &b)\<close>: skips white space, then converts at most two characters, which may
  begin with a sign or (as in glibc) with \<^verbatim>\<open>0x\<close>. \<open>None\<close>: nothing converted, \<^verbatim>\<open>b\<close> not assigned.\<close>

definition scan_02x :: "bytes \<Rightarrow> u32 option" where
  "scan_02x s = (case take 2 (dropWhile is_space s) of
       [] \<Rightarrow> None
     | [c] \<Rightarrow> hex_val c
     | c # c' # _ \<Rightarrow>
         if c = 43 then hex_val c'
         else if c = 45 then map_option uminus (hex_val c')
         else (case hex_val c of
             None \<Rightarrow> None
           | Some x \<Rightarrow> (case hex_val c' of None \<Rightarrow> Some x | Some y \<Rightarrow> Some (16 * x + y))))"

section \<open>verify_credentials\<close>

text \<open>The loop that removes trailing \<^verbatim>\<open>\n\<close> and \<^verbatim>\<open>\r\<close>.\<close>

function strip_eol :: "bytes \<Rightarrow> bytes" where
  "strip_eol hex = (if hex \<noteq> [] \<and> (last hex = NL \<or> last hex = CR) then strip_eol (butlast hex) else hex)"
  by pat_completeness auto
termination
  by (relation "measure length") auto

declare strip_eol.simps [simp del]

text \<open>The loop over \<^verbatim>\<open>hex + i * 2\<close>; reading \<^verbatim>\<open>b\<close> after a failed conversion is a fault.\<close>

fun decode_hash :: "nat \<Rightarrow> bytes \<Rightarrow> fault + bytes" where
  "decode_hash 0 hex = Inr []"
| "decode_hash (Suc n) hex = (case scan_02x hex of
       None \<Rightarrow> Inl UninitRead
     | Some b \<Rightarrow> bindr (decode_hash n (drop 2 hex)) (\<lambda>stored. Inr (ucast b # stored)))"

text \<open>A line read into the buffer, as a C string split at its first colon.\<close>

definition split_colon :: "bytes \<Rightarrow> (bytes \<times> bytes) option" where
  "split_colon l = (if COLON \<in> set (cstr l)
     then Some (takeWhile (\<lambda>c. c \<noteq> COLON) (cstr l), tl (dropWhile (\<lambda>c. c \<noteq> COLON) (cstr l)))
     else None)"

definition check_hash :: "bytes \<Rightarrow> bytes \<Rightarrow> fault + bool" where
  "check_hash password_hash hex0 =
     (let hex = strip_eol hex0 in
      if length hex \<noteq> SQMP_PASSWORD_HASH_LEN * 2 then Inr False
      else bindr (decode_hash SQMP_PASSWORD_HASH_LEN hex) (\<lambda>stored.
             memcmp_eq password_hash stored SQMP_PASSWORD_HASH_LEN))"

function verify_loop :: "bytes \<Rightarrow> bytes \<Rightarrow> bytes \<Rightarrow> fault + bool" where
  "verify_loop username password_hash f = (case fgets 256 f of
       None \<Rightarrow> Inr False
     | Some (l, f') \<Rightarrow> (case split_colon l of
           None \<Rightarrow> verify_loop username password_hash f'
         | Some (name, hex) \<Rightarrow>
             if username \<noteq> name then verify_loop username password_hash f'
             else check_hash password_hash hex))"
  by pat_completeness auto
termination
  by (relation "measure (\<lambda>(u, h, f). length f)") (auto dest: fgets_256_shorter)

declare verify_loop.simps [simp del]

text \<open>\<open>users\<close> is the content of \<^verbatim>\<open>data/users.txt\<close>, \<open>None\<close> when it cannot be opened; \<open>username\<close> is the
  buffer that holds the name as a C string.\<close>

definition verify_credentials :: "bytes option \<Rightarrow> bytes \<Rightarrow> bytes \<Rightarrow> fault + bool" where
  "verify_credentials users username password_hash = (case users of
       None \<Rightarrow> Inr False
     | Some f \<Rightarrow> verify_loop (cstr username) password_hash f)"

section \<open>sqmp_add_user\<close>

definition forbidden_usernames :: "bytes list" where
  "forbidden_usernames = [ascii ''exit'', ascii ''quit'', ascii ''r'', ascii ''reply'']"

function user_exists :: "bytes \<Rightarrow> bytes \<Rightarrow> bool" where
  "user_exists username f = (case fgets 256 f of
       None \<Rightarrow> False
     | Some (l, f') \<Rightarrow> (case split_colon l of
           None \<Rightarrow> user_exists username f'
         | Some (name, _) \<Rightarrow>
             if length name = length username \<and> take (length username) (cstr l) = username then True
             else user_exists username f'))"
  by pat_completeness auto
termination
  by (relation "measure (\<lambda>(u, f). length f)") (auto dest: fgets_256_shorter)

declare user_exists.simps [simp del]

definition hex_char :: "u8 \<Rightarrow> u8" where
  "hex_char n = (if n < 10 then 48 + n else 87 + n)"

text \<open>\<^verbatim>\<open>fprintf(f, "%02x", hash[i])\<close>\<close>

definition print_02x :: "u8 \<Rightarrow> bytes" where
  "print_02x b = [hex_char (b div 16), hex_char (b mod 16)]"

definition user_line :: "bytes \<Rightarrow> bytes \<Rightarrow> bytes" where
  "user_line username hash = username @ [COLON] @ concat (map print_02x hash) @ [NL]"

text \<open>
  \<^verbatim>\<open>main\<close> of the utility. \<open>args\<close> are the arguments after the program name, \<open>fs\<close> the files by path,
  \<open>can_append\<close> whether opening for appending succeeds, \<open>sha256\<close> the hash function. The result is
  the exit code and the files.
\<close>

definition DEFAULT_USERS_FILE :: bytes where
  "DEFAULT_USERS_FILE = ascii ''users.txt''"

definition add_user_main ::
  "(bytes \<Rightarrow> bytes) \<Rightarrow> bool \<Rightarrow> bytes list \<Rightarrow> (bytes \<rightharpoonup> bytes) \<Rightarrow> int \<times> (bytes \<rightharpoonup> bytes)" where
  "add_user_main sha256 can_append args fs =
     (if length args < 2 \<or> 3 < length args then (1, fs)
      else
        let username = args ! 0; password = args ! 1;
            users_file = (if length args = 3 then args ! 2 else DEFAULT_USERS_FILE) in
        if username = [] then (1, fs)
        else if username \<in> set forbidden_usernames then (1, fs)
        else if (case fs users_file of None \<Rightarrow> False | Some f \<Rightarrow> user_exists username f) then (1, fs)
        else if \<not> can_append then (1, fs)
        else (0, fs(users_file \<mapsto> (case fs users_file of None \<Rightarrow> [] | Some f \<Rightarrow> f)
                      @ user_line username (sha256 password))))"

section \<open>The file as a table\<close>

text \<open>The lines of a file as \<^verbatim>\<open>fgets\<close> delivers them, and the table the server searches: the entry of
  a user is its first line.\<close>

function fgets_lines :: "bytes \<Rightarrow> bytes list" where
  "fgets_lines f = (case fgets 256 f of None \<Rightarrow> [] | Some (l, f') \<Rightarrow> l # fgets_lines f')"
  by pat_completeness auto
termination
  by (relation "measure length") (auto dest: fgets_256_shorter)

declare fgets_lines.simps [simp del]

definition users_table :: "bytes \<Rightarrow> (bytes \<times> bytes) list" where
  "users_table f = List.map_filter split_colon (fgets_lines f)"

lemma users_table_unfold:
  "users_table f = (case fgets 256 f of None \<Rightarrow> []
     | Some (l, f') \<Rightarrow> (case split_colon l of None \<Rightarrow> users_table f' | Some e \<Rightarrow> e # users_table f'))"
  by (subst users_table_def, subst fgets_lines.simps)
     (auto simp: users_table_def List.map_filter_def split: option.splits)

lemma verify_loop_table:
  "verify_loop u h f = (case map_of (users_table f) u of None \<Rightarrow> Inr False | Some hex \<Rightarrow> check_hash h hex)"
proof (induction f rule: fgets_lines.induct)
  case (1 f)
  show ?case
  proof (cases "fgets 256 f")
    case None
    then show ?thesis unfolding verify_loop.simps [of u h f] users_table_unfold [of f] by simp
  next
    case (Some lf)
    obtain l f' where lf: "lf = (l, f')" by (cases lf)
    note IH = "1" [OF Some lf [symmetric]]
    show ?thesis
      unfolding verify_loop.simps [of u h f] users_table_unfold [of f] Some lf option.case prod.case
      by (cases "split_colon l") (auto simp only: IH option.case prod.case map_of.simps fun_upd_apply
          fst_conv snd_conv split: prod.splits if_splits)
  qed
qed

lemma split_colon_name:
  assumes "split_colon l = Some (n, x)"
  shows "length n = length u \<and> take (length u) (cstr l) = u \<longleftrightarrow> n = u"
proof -
  have n: "n = takeWhile (\<lambda>c. c \<noteq> COLON) (cstr l)"
    using assms by (auto simp: split_colon_def split: if_splits)
  then have "take (length n) (cstr l) = n"
    by (metis takeWhile_eq_take length_takeWhile_le take_all min.absorb2 length_take take_take)
  then show ?thesis by auto
qed

lemma user_exists_table: "user_exists u f \<longleftrightarrow> u \<in> fst ` set (users_table f)"
proof (induction f rule: fgets_lines.induct)
  case (1 f)
  show ?case
  proof (cases "fgets 256 f")
    case None
    then show ?thesis unfolding user_exists.simps [of u f] users_table_unfold [of f] by simp
  next
    case (Some lf)
    obtain l f' where lf: "lf = (l, f')" by (cases lf)
    note IH = "1" [OF Some lf [symmetric]]
    show ?thesis
    proof (cases "split_colon l")
      case None
      with Some lf IH show ?thesis unfolding user_exists.simps [of u f] users_table_unfold [of f] by simp
    next
      case (Some e)
      obtain n x where e: "e = (n, x)" by (cases e)
      then show ?thesis
        unfolding user_exists.simps [of u f] users_table_unfold [of f] \<open>fgets 256 f = Some lf\<close> lf
          option.case prod.case Some IH
        using split_colon_name [OF Some [unfolded e], of u] by auto
    qed
  qed
qed

section \<open>Printing and scanning a hash\<close>

lemma u8_less_16: "(n :: u8) < 16 \<Longrightarrow> n \<in> {0, 1, 2, 3, 4, 5, 6, 7, 8, 9, 10, 11, 12, 13, 14, 15}"
proof -
  assume "n < 16"
  then have "unat n < 16" by (simp add: word_less_nat_alt)
  then have "unat n \<in> {0, 1, 2, 3, 4, 5, 6, 7, 8, 9, 10, 11, 12, 13, 14, 15}" by (simp; arith)
  then show ?thesis by (simp add: word_unat_eq_iff)
qed

lemma hex_char_props:
  assumes "(n :: u8) < 16"
  shows "hex_val (hex_char n) = Some (ucast n) \<and> \<not> is_space (hex_char n)
    \<and> hex_char n \<noteq> 43 \<and> hex_char n \<noteq> 45 \<and> hex_char n \<noteq> 0 \<and> hex_char n \<noteq> 10 \<and> hex_char n \<noteq> 13"
  using u8_less_16 [OF assms] unfolding insert_iff empty_iff
  by (elim disjE) (simp_all add: hex_val_def hex_char_def is_space_def)

lemma nibbles: "(b :: u8) div 16 < 16" "b mod 16 < 16"
  "16 * ucast (b div 16) + ucast (b mod 16) = (ucast b :: u32)"
proof -
  have d: "unat (b div 16) = unat b div 16" "unat (b mod 16) = unat b mod 16"
    by (simp_all add: unat_div unat_mod)
  have "unat b < 256" using unsigned_less [of b] by simp
  then show "b div 16 < 16" "b mod 16 < 16" using d by (simp_all add: word_less_nat_alt)
  show "16 * ucast (b div 16) + ucast (b mod 16) = (ucast b :: u32)"
    using \<open>unat b < 256\<close> d by (simp add: word_unat_eq_iff unat_word_ariths unsigned_ucast_eq take_bit_eq_mod)
qed
lemma scan_print_02x: "scan_02x (print_02x b @ r) = Some (ucast b)"
  using hex_char_props [OF nibbles(1) [of b]] hex_char_props [OF nibbles(2) [of b]] nibbles(3) [of b]
  by (simp add: scan_02x_def print_02x_def numeral_2_eq_2)

lemma ucast_u32_u8 [simp]: "(ucast (ucast (b :: u8) :: u32) :: u8) = b"
  by (rule bit_word_eqI) (simp add: bit_simps)

lemma decode_print_hash: "decode_hash (length h) (concat (map print_02x h)) = Inr h"
proof (induction h)
  case Nil
  then show ?case by simp
next
  case (Cons b h)
  have "drop 2 (print_02x b @ r) = r" for r by (simp add: print_02x_def)
  with Cons show ?case by (simp add: scan_print_02x)
qed

lemma hex_chars_plain:
  assumes "c \<in> set (concat (map print_02x h))"
  shows "c \<noteq> 0 \<and> c \<noteq> NL \<and> c \<noteq> CR"
proof -
  obtain b where "c = hex_char (b div 16) \<or> c = hex_char (b mod 16)"
    using assms by (auto simp: print_02x_def)
  then show ?thesis using hex_char_props [OF nibbles(1) [of b]] hex_char_props [OF nibbles(2) [of b]]
    by auto
qed

lemma length_print_hash: "length (concat (map print_02x h)) = 2 * length h"
  by (induction h) (simp_all add: print_02x_def)

lemma strip_eol_plain: "x = [] \<or> last x \<noteq> NL \<and> last x \<noteq> CR \<Longrightarrow> strip_eol x = x"
  by (subst strip_eol.simps) auto

lemma strip_eol_NL: "\<forall>c \<in> set x. c \<noteq> NL \<and> c \<noteq> CR \<Longrightarrow> strip_eol (x @ [NL]) = x"
  using strip_eol_plain [of x] by (subst strip_eol.simps) (cases "x = []"; simp)

section \<open>Reading back an appended line\<close>

text \<open>A file whose last line is complete is read line by line into whatever is appended to it.\<close>

definition complete_lines :: "bytes \<Rightarrow> bool" where
  "complete_lines f \<longleftrightarrow> f = [] \<or> last f = NL"

lemma fgets_loop_ended:
  "f \<noteq> [] \<Longrightarrow> last f = NL \<Longrightarrow> fgets_loop n (f @ g) = (fst (fgets_loop n f), snd (fgets_loop n f) @ g)"
  by (induction n f rule: fgets_loop.induct) (auto split: if_splits)

lemma complete_lines_rest: "complete_lines f \<Longrightarrow> complete_lines (snd (fgets_loop n f))"
  using fgets_loop_append [of n f] unfolding complete_lines_def
  by (metis append_is_Nil_conv last_appendR)

lemma fgets_lines_append:
  "complete_lines f \<Longrightarrow> fgets_lines (f @ g) = fgets_lines f @ fgets_lines g"
proof (induction f rule: fgets_lines.induct)
  case (1 f)
  show ?case
  proof (cases "f = []")
    case True
    then show ?thesis by (simp add: fgets_lines.simps [of "[]"] fgets_def)
  next
    case False
    let ?l = "fst (fgets_loop 255 f)" and ?r = "snd (fgets_loop 255 f)"
    have f: "fgets 256 f = Some (?l, ?r)" using False by (simp add: fgets_def)
    have fg: "fgets 256 (f @ g) = Some (?l, ?r @ g)"
      using False "1.prems" by (simp add: fgets_def fgets_loop_ended complete_lines_def)
    have "fgets_lines (?r @ g) = fgets_lines ?r @ fgets_lines g"
      by (rule "1.IH" [OF f refl complete_lines_rest [OF "1.prems"]])
    then show ?thesis
      unfolding fgets_lines.simps [of f] fgets_lines.simps [of "f @ g"] f fg by (simp add: case_prod_beta)
  qed
qed

lemma fgets_loop_line: "NL \<notin> set x \<Longrightarrow> length x < n \<Longrightarrow> fgets_loop n (x @ [NL]) = (x @ [NL], [])"
  by (induction x arbitrary: n) (case_tac n; auto)+

lemma fgets_lines_line:
  assumes "NL \<notin> set x" and "length x \<le> 254"
  shows "fgets_lines (x @ [NL]) = [x @ [NL]]"
proof -
  have "fgets 256 (x @ [NL]) = Some (x @ [NL], [])"
    using fgets_loop_line [of x 255] assms by (simp add: fgets_def)
  then show ?thesis
    unfolding fgets_lines.simps [of "x @ [NL]"] by (simp add: fgets_lines.simps [of "[]"] fgets_def)
qed

lemma fgets_lines_unterminated:
  assumes "l \<noteq> []" and "NL \<notin> set l" and "length l \<le> 255"
  shows "fgets_lines l = [l]"
proof -
  have "fgets_loop n l = (l, [])" if "length l \<le> n" for n
    using that assms(2) by (induction l arbitrary: n) (case_tac n; auto)+
  then have "fgets 256 l = Some (l, [])" using assms by (auto simp: fgets_def)
  then show ?thesis
    unfolding fgets_lines.simps [of l] by (simp add: fgets_lines.simps [of "[]"] fgets_def)
qed

text \<open>A user name that fits the file format: no \<^verbatim>\<open>NUL\<close>, newline or colon, and short enough for its
  line to fit the 256-byte buffer of both programs.\<close>

definition plain_username :: "bytes \<Rightarrow> bool" where
  "plain_username u \<longleftrightarrow> 0 \<notin> set u \<and> NL \<notin> set u \<and> COLON \<notin> set u \<and> length u \<le> 189"

lemma split_colon_user_line:
  assumes "plain_username u"
  shows "split_colon (user_line u h) = Some (u, concat (map print_02x h) @ [NL])"
proof -
  have "cstr (user_line u h) = user_line u h"
    using assms hex_chars_plain [of _ h] by (intro cstr_id) (auto simp: user_line_def plain_username_def)
  with assms show ?thesis
    by (auto simp: split_colon_def user_line_def plain_username_def takeWhile_append dropWhile_append)
qed

lemma users_table_append_user:
  assumes "complete_lines f" and "plain_username u" and "length h = 32"
  shows "users_table (f @ user_line u h) = users_table f @ [(u, concat (map print_02x h) @ [NL])]"
proof -
  let ?x = "u @ [COLON] @ concat (map print_02x h)"
  have "fgets_lines (user_line u h) = [user_line u h]"
    using fgets_lines_line [of ?x] assms hex_chars_plain [of NL h] length_print_hash [of h]
    by (auto simp: user_line_def plain_username_def)
  with assms split_colon_user_line [OF assms(2), of h] show ?thesis
    by (simp add: users_table_def fgets_lines_append List.map_filter_def)
qed

lemma check_printed_hash:
  assumes "length h = 32" and "length h' = 32"
  shows "check_hash h' (concat (map print_02x h) @ [NL]) = Inr (h' = h)"
proof -
  have "strip_eol (concat (map print_02x h) @ [NL]) = concat (map print_02x h)"
    using hex_chars_plain [of _ h] by (intro strip_eol_NL) blast
  with assms decode_print_hash [of h] length_print_hash [of h] show ?thesis
    by (simp add: check_hash_def)
qed

section \<open>Properties\<close>

text \<open>What a users file says, stated without the code that reads it: a list of lines, each a comment
  (any line without a colon) or a user with the hash of the password.\<close>

definition users_file_line :: "bytes + bytes \<times> bytes \<Rightarrow> bytes" where
  "users_file_line e = (case e of Inl c \<Rightarrow> c @ [NL] | Inr (u, g) \<Rightarrow> user_line u g)"

definition users_file_line_ok :: "bytes + bytes \<times> bytes \<Rightarrow> bool" where
  "users_file_line_ok e = (case e of
       Inl c \<Rightarrow> NL \<notin> set c \<and> COLON \<notin> set c \<and> length c \<le> 254
     | Inr (u, g) \<Rightarrow> plain_username u \<and> length g = 32)"

definition users_of_lines :: "(bytes + bytes \<times> bytes) list \<Rightarrow> (bytes \<times> bytes) list" where
  "users_of_lines es = [x. Inr x \<leftarrow> es]"

lemma users_table_append: "complete_lines f \<Longrightarrow> users_table (f @ g) = users_table f @ users_table g"
  by (simp add: users_table_def fgets_lines_append List.map_filter_def)

lemma users_table_line:
  assumes "users_file_line_ok e"
  shows "users_table (users_file_line e)
    = (case e of Inl c \<Rightarrow> [] | Inr (u, g) \<Rightarrow> [(u, concat (map print_02x g) @ [NL])])"
proof (cases e)
  case (Inl c)
  then have c: "NL \<notin> set c" "COLON \<notin> set c" "length c \<le> 254"
    using assms by (simp_all add: users_file_line_ok_def)
  moreover have "set (cstr (c @ [NL])) \<subseteq> set c \<union> {NL}" by (auto simp: cstr_def dest: set_takeWhileD)
  ultimately have "COLON \<notin> set (cstr (c @ [NL]))" by auto
  then show ?thesis
    using fgets_lines_line [OF c(1,3)] Inl
    by (simp add: users_file_line_def users_table_def List.map_filter_def split_colon_def)
next
  case (Inr x)
  obtain u g where x: "x = (u, g)" by (cases x)
  then show ?thesis
    using users_table_append_user [of "[]" u g] assms Inr
    by (simp add: users_file_line_ok_def users_file_line_def complete_lines_def users_table_unfold [of "[]"] fgets_def)
qed

lemma users_table_lines:
  assumes "\<forall>e \<in> set es. users_file_line_ok e"
  shows "users_table (concat (map users_file_line es))
    = map (\<lambda>(u, g). (u, concat (map print_02x g) @ [NL])) (users_of_lines es)"
  using assms
proof (induction es)
  case Nil
  then show ?case by (simp add: users_of_lines_def users_table_unfold [of "[]"] fgets_def)
next
  case (Cons e es)
  have "complete_lines (users_file_line e)"
    by (simp add: complete_lines_def users_file_line_def user_line_def split: sum.split prod.split)
  with Cons show ?case
    by (simp add: users_table_append users_table_line users_of_lines_def split: sum.split)
qed

text \<open>C10: who may log in. For a file whose lines are comments and users with 32-byte hashes (names
  without \<^verbatim>\<open>NUL\<close>, newline and colon and of at most 189 bytes), the server accepts a name with a
  password hash exactly when the first line with that name carries all 32 bytes of that hash; it
  accepts nobody when the file cannot be opened.\<close>

theorem verify_credentials_table:
  assumes "\<forall>e \<in> set es. users_file_line_ok e" and "length h = 32"
  shows "verify_credentials (Some (concat (map users_file_line es))) name h
      = Inr (map_of (users_of_lines es) (cstr name) = Some h)
    \<and> verify_credentials None name h = Inr False"
proof -
  have "length g = 32" if "map_of (users_of_lines es) u = Some g" for u g
    using map_of_SomeD [OF that] assms(1) by (auto simp: users_of_lines_def users_file_line_ok_def split: sum.splits)
  then show ?thesis
    using check_printed_hash [OF _ assms(2)]
    by (auto simp: verify_credentials_def verify_loop_table users_table_lines [OF assms(1)] map_of_map
        split: option.split)
qed

text \<open>The comment \<^verbatim>\<open>#x\<close> and the users \<^verbatim>\<open>a\<close> and \<^verbatim>\<open>b\<close>, \<^verbatim>\<open>a\<close> twice.\<close>

definition demo_file_lines :: "(bytes + bytes \<times> bytes) list" where
  "demo_file_lines = [Inl [35, 120], Inr ([97], replicate 32 7), Inr ([98], replicate 32 8), Inr ([97], replicate 32 9)]"

theorem verify_credentials_table_witness:
  "verify_credentials (Some (concat (map users_file_line demo_file_lines))) [97, 0] (replicate 32 7) = Inr True
   \<and> verify_credentials (Some (concat (map users_file_line demo_file_lines))) [97, 0] (replicate 32 9) = Inr False
   \<and> verify_credentials (Some (concat (map users_file_line demo_file_lines))) [98, 0] (replicate 31 8 @ [9]) = Inr False"
proof -
  have ok: "\<forall>e \<in> set demo_file_lines. users_file_line_ok e"
    by (simp add: demo_file_lines_def users_file_line_ok_def plain_username_def)
  have users: "users_of_lines demo_file_lines = [([97], replicate 32 7), ([98], replicate 32 8), ([97], replicate 32 9)]"
    by (simp add: demo_file_lines_def users_of_lines_def)
  have cstr: "cstr [97, 0] = [97]" "cstr [98, 0] = [98]" by (simp_all add: cstr_def)
  have ne: "replicate 32 8 \<noteq> replicate 31 (8 :: u8) @ [9]"
    by (rule notI, drule arg_cong [where f = last]) simp
  show ?thesis
    using verify_credentials_table [OF ok, of "replicate 32 7" "[97, 0]"]
      verify_credentials_table [OF ok, of "replicate 32 9" "[97, 0]"]
      verify_credentials_table [OF ok, of "replicate 31 8 @ [9]" "[98, 0]"]
    by (simp add: users cstr ne del: concat.simps list.map)
qed

text \<open>C13: what the utility adds, the server accepts. When \<^verbatim>\<open>sqmp_add_user\<close> reports success for a
  name that fits the file format and the file ended with a newline, then the server accepts the
  user with the SHA-256 hash of the password and with no other 32-byte hash.\<close>

theorem added_user_can_log_in:
  assumes "add_user_main sha256 can_append [u, pw] fs = (0, fs')"
    and "\<And>f. fs DEFAULT_USERS_FILE = Some f \<Longrightarrow> complete_lines f"
    and "plain_username u" and "\<And>m. length (sha256 m) = 32" and "length h = 32"
  shows "verify_credentials (fs' DEFAULT_USERS_FILE) (u @ 0 # r) h = Inr (h = sha256 pw)"
proof -
  define f where "f = (case fs DEFAULT_USERS_FILE of None \<Rightarrow> [] | Some f \<Rightarrow> f)"
  have new: "fs' DEFAULT_USERS_FILE = Some (f @ user_line u (sha256 pw))"
    using assms(1) by (auto simp: add_user_main_def f_def split: if_splits)
  have "u \<notin> fst ` set (users_table f)"
  proof (cases "fs DEFAULT_USERS_FILE")
    case None
    then show ?thesis by (simp add: f_def users_table_unfold [of "[]"] fgets_def)
  next
    case (Some g)
    with assms(1) have "\<not> user_exists u g" by (auto simp: add_user_main_def split: if_splits)
    with Some show ?thesis by (simp add: f_def user_exists_table)
  qed
  then have "map_of (users_table f) u = None" by (simp add: map_of_eq_None_iff)
  moreover have "complete_lines f"
    using assms(2) by (cases "fs DEFAULT_USERS_FILE") (simp_all add: f_def complete_lines_def)
  ultimately have "map_of (users_table (f @ user_line u (sha256 pw))) u
      = Some (concat (map print_02x (sha256 pw)) @ [NL])"
    using assms by (simp add: users_table_append_user map_add_def)
  moreover have "cstr (u @ 0 # r) = u" using assms(3) by (intro cstr_append_nul) (simp add: plain_username_def)
  ultimately show ?thesis
    using check_printed_hash [OF assms(4,5), of pw]
    by (simp add: new verify_credentials_def verify_loop_table)
qed

text \<open>A stand-in for SHA-256 with its documented output length, for the witnesses.\<close>

definition demo_hash :: "bytes \<Rightarrow> bytes" where
  "demo_hash m = take 32 (m @ zeros 32)"

lemma length_demo_hash [simp]: "length (demo_hash m) = 32"
  by (simp add: demo_hash_def)

lemma demo_add_user:
  "add_user_main demo_hash True [[97, 98], [120]] Map.empty
     = (0, [DEFAULT_USERS_FILE \<mapsto> user_line [97, 98] (demo_hash [120])])"
  by (simp add: add_user_main_def forbidden_usernames_def ascii_def)

lemma plain_ab: "plain_username [97, 98]"
  by (simp add: plain_username_def)

theorem added_user_can_log_in_witness:
  "verify_credentials (Some (user_line [97, 98] (demo_hash [120]))) [97, 98, 0] (demo_hash [120]) = Inr True
   \<and> verify_credentials (Some (user_line [97, 98] (demo_hash [120]))) [97, 98, 0] (zeros 32) = Inr False"
proof -
  have "hd (demo_hash [120]) \<noteq> hd (zeros 32)" by (simp add: demo_hash_def zeros_def)
  then have "demo_hash [120] \<noteq> zeros 32" by metis
  with added_user_can_log_in [OF demo_add_user _ plain_ab length_demo_hash, of "demo_hash [120]" "[]"]
    added_user_can_log_in [OF demo_add_user _ plain_ab length_demo_hash, of "zeros 32" "[]"]
  show ?thesis by simp
qed

text \<open>C35: when the users file ends with a newline and the new name fits the file format, adding the
  user does not change how a login under any other name is checked.\<close>

theorem add_user_keeps_other_users:
  assumes "add_user_main sha256 can_append [u, pw] fs = (0, fs')"
    and "fs DEFAULT_USERS_FILE = Some f" and "complete_lines f"
    and "plain_username u" and "\<And>m. length (sha256 m) = 32" and "cstr v \<noteq> u"
  shows "verify_credentials (fs' DEFAULT_USERS_FILE) v h = verify_credentials (fs DEFAULT_USERS_FILE) v h"
proof -
  have "fs' DEFAULT_USERS_FILE = Some (f @ user_line u (sha256 pw))"
    using assms(1,2) by (auto simp: add_user_main_def split: if_splits)
  with assms(2-6) show ?thesis
    by (simp add: verify_credentials_def verify_loop_table users_table_append_user map_add_def
        split: option.split)
qed

theorem add_user_keeps_other_users_witness:
  "verify_credentials (Some (user_line [97] (demo_hash [121]) @ user_line [97, 98] (demo_hash [120])))
     [97, 0] (demo_hash [121]) = verify_credentials (Some (user_line [97] (demo_hash [121]))) [97, 0] (demo_hash [121])"
proof -
  let ?f = "user_line [97] (demo_hash [121])"
  have c: "complete_lines ?f" by (simp add: complete_lines_def user_line_def)
  have "users_table ([] @ ?f) = users_table [] @ [([97], concat (map print_02x (demo_hash [121])) @ [NL])]"
    by (rule users_table_append_user) (simp_all add: complete_lines_def plain_username_def)
  then have "\<not> user_exists [97, 98] ?f"
    by (simp add: user_exists_table users_table_unfold [of "[]"] fgets_def)
  then have "add_user_main demo_hash True [[97, 98], [120]] [DEFAULT_USERS_FILE \<mapsto> ?f]
      = (0, [DEFAULT_USERS_FILE \<mapsto> ?f @ user_line [97, 98] (demo_hash [120])])"
    by (simp add: add_user_main_def forbidden_usernames_def ascii_def)
  from add_user_keeps_other_users [OF this _ c plain_ab length_demo_hash, of "[97, 0]" "demo_hash [121]"]
  show ?thesis by (simp add: cstr_def)
qed

text \<open>C36: when the utility refuses, it refuses for a stated reason and leaves every file alone.
  It exits with 0 exactly when it was given two or three arguments, the name is neither empty nor
  one of the client's command words, no line of the users file carries the name yet and the file
  can be opened for appending.\<close>

theorem add_user_exit_code:
  defines "path args \<equiv> if length args = 3 then args ! 2 else DEFAULT_USERS_FILE"
  shows "(fst (add_user_main sha256 can_append args fs) = 0 \<longleftrightarrow>
      (length args = 2 \<or> length args = 3) \<and> args ! 0 \<noteq> [] \<and> args ! 0 \<notin> set forbidden_usernames
      \<and> (case fs (path args) of None \<Rightarrow> True
          | Some f \<Rightarrow> args ! 0 \<notin> fst ` set (users_table f)) \<and> can_append)
    \<and> (fst (add_user_main sha256 can_append args fs) \<noteq> 0 \<longrightarrow>
        add_user_main sha256 can_append args fs = (1, fs))"
  unfolding path_def add_user_main_def Let_def user_exists_table
  by (auto split: option.splits)

theorem add_user_exit_code_witness:
  "add_user_main demo_hash True [ascii ''quit'', [120]] Map.empty = (1, Map.empty)"
  using add_user_exit_code [of demo_hash True "[ascii ''quit'', [120]]" Map.empty]
  by (simp add: forbidden_usernames_def)

lemma check_unterminated:
  assumes "length h = 32" and "length h' = 32"
  shows "check_hash h' (concat (map print_02x h)) = Inr (h' = h)"
proof -
  have "strip_eol (concat (map print_02x h)) = concat (map print_02x h)"
    using hex_chars_plain [of "last (concat (map print_02x h))" h] last_in_set by (intro strip_eol_plain) blast
  with assms decode_print_hash [of h] length_print_hash [of h] show ?thesis by (simp add: check_hash_def)
qed

text \<open>A hash field that a further name and hash were glued to is too long.\<close>

lemma check_glued:
  assumes "length hv = 32" and "length hu = 32"
  shows "check_hash h (concat (map print_02x hv) @ u @ [COLON] @ concat (map print_02x hu) @ [NL]) = Inr False"
proof -
  let ?x = "concat (map print_02x hv) @ u @ [COLON] @ concat (map print_02x hu)"
  have ne: "concat (map print_02x hu) \<noteq> []" using assms(2) by (cases hu) (auto simp: print_02x_def)
  have "last ?x = last (concat (map print_02x hu))" by (simp only: last_appendR ne not_False_eq_True append_is_Nil_conv simp_thms)
  then have "last ?x \<noteq> NL \<and> last ?x \<noteq> CR"
    using hex_chars_plain [of "last (concat (map print_02x hu))" hu] last_in_set [OF ne] by metis
  then have "strip_eol (?x @ [NL]) = ?x"
    by (subst strip_eol.simps) (simp only: last_snoc butlast_snoc strip_eol_plain simp_thms snoc_eq_iff_butlast; simp)
  moreover have "length ?x \<noteq> 64" using assms length_print_hash [of hv] length_print_hash [of hu] by simp
  ultimately show ?thesis by (simp add: check_hash_def)
qed

lemma users_table_unterminated_user:
  assumes "plain_username v" and "length hv = 32"
  shows "users_table (butlast (user_line v hv)) = [(v, concat (map print_02x hv))]"
proof -
  let ?l = "v @ [COLON] @ concat (map print_02x hv)"
  have l: "butlast (user_line v hv) = ?l" by (simp add: user_line_def butlast_append)
  have "NL \<notin> set ?l" "length ?l \<le> 255" "0 \<notin> set ?l"
    using assms hex_chars_plain [of _ hv] length_print_hash [of hv] by (auto simp: plain_username_def)
  then have "fgets_lines ?l = [?l]" "cstr ?l = ?l" by (intro fgets_lines_unterminated cstr_id; simp)+
  then show ?thesis
    unfolding l using assms(1)
    by (simp add: users_table_def List.map_filter_def split_colon_def plain_username_def takeWhile_append dropWhile_append)
qed

text \<open>C37: the utility appends without looking at the end of the file. When the last line, of a user
  \<open>v\<close> the server accepts, is not ended by a newline, the new line is glued to it: the utility
  reports success, and from then on the server refuses both the new user and \<open>v\<close>, whatever the
  password.\<close>

theorem add_user_after_unterminated_line:
  assumes "complete_lines g" and "plain_username v" and "length hv = 32" and "v \<notin> fst ` set (users_table g)"
    and "length v + length u \<le> 124" and "plain_username u" and "\<And>m. length (sha256 m) = 32"
    and "fs DEFAULT_USERS_FILE = Some (g @ butlast (user_line v hv))"
    and "add_user_main sha256 can_append [u, pw] fs = (0, fs')"
  shows "verify_credentials (fs DEFAULT_USERS_FILE) v hv = Inr True
    \<and> verify_credentials (fs' DEFAULT_USERS_FILE) v h = Inr False
    \<and> verify_credentials (fs' DEFAULT_USERS_FILE) u h = Inr False"
proof -
  let ?hex = "concat (map print_02x hv) @ u @ [COLON] @ concat (map print_02x (sha256 pw))"
  let ?x = "v @ [COLON] @ ?hex"
  note old = users_table_append [OF assms(1), of "butlast (user_line v hv)", unfolded users_table_unterminated_user [OF assms(2,3)]]
  have new: "fs' DEFAULT_USERS_FILE = Some (g @ ?x @ [NL])" and fresh: "u \<notin> fst ` set (users_table g)" "u \<noteq> v"
    using assms(8,9) old by (auto simp: add_user_main_def user_line_def user_exists_table butlast_append split: if_splits)
  have hex: "NL \<notin> set (concat (map print_02x hh))" "0 \<notin> set (concat (map print_02x hh))" for hh
    using hex_chars_plain by blast+
  have x: "NL \<notin> set ?x" "length ?x \<le> 254" "0 \<notin> set ?x"
    using assms(2,3,5-7) hex length_print_hash [of "sha256 pw"] length_print_hash [of hv]
    by (simp_all add: plain_username_def)
  then have "fgets_lines (?x @ [NL]) = [?x @ [NL]]" "cstr (?x @ [NL]) = ?x @ [NL]"
    by (intro fgets_lines_line cstr_id; simp)+
  then have "users_table (?x @ [NL]) = [(v, ?hex @ [NL])]"
    using assms(2) by (simp add: users_table_def List.map_filter_def split_colon_def plain_username_def
        takeWhile_append dropWhile_append)
  then have table: "users_table (g @ ?x @ [NL]) = users_table g @ [(v, ?hex @ [NL])]"
    using users_table_append [OF assms(1)] by simp
  have names: "cstr v = v" "cstr u = u" using assms(2,6) by (simp_all add: plain_username_def cstr_id)
  have none: "map_of (users_table g) v = None" "map_of (users_table g) u = None"
    using assms(4) fresh(1) by (simp_all add: map_of_eq_None_iff)
  have "check_hash h (?hex @ [NL]) = Inr False" using check_glued [OF assms(3,7)] by simp
  then show ?thesis
    using none fresh(2) check_unterminated [OF assms(3,3)] table
    by (simp add: new assms(8) old names verify_credentials_def verify_loop_table map_add_def)
qed

theorem add_user_after_unterminated_line_witness:
  "verify_credentials (Some (butlast (user_line [97] (replicate 32 7)))) [97] (replicate 32 7) = Inr True
   \<and> verify_credentials (Some (butlast (user_line [97] (replicate 32 7)) @ user_line [98] (demo_hash [120]))) [97]
        (replicate 32 7) = Inr False
   \<and> verify_credentials (Some (butlast (user_line [97] (replicate 32 7)) @ user_line [98] (demo_hash [120]))) [98]
        (demo_hash [120]) = Inr False"
proof -
  let ?l = "butlast (user_line [97] (replicate 32 7))"
  have plain: "plain_username [97]" "plain_username [98]" by (simp_all add: plain_username_def)
  have "users_table ?l = [([97], concat (map print_02x (replicate 32 7)))]"
    by (rule users_table_unterminated_user [OF plain(1)]) simp
  then have added: "add_user_main demo_hash True [[98], [120]] [DEFAULT_USERS_FILE \<mapsto> [] @ ?l]
      = (0, [DEFAULT_USERS_FILE \<mapsto> ?l @ user_line [98] (demo_hash [120])])"
    by (simp add: add_user_main_def forbidden_usernames_def ascii_def user_exists_table)
  have nil: "complete_lines []" "[97] \<notin> fst ` set (users_table [])"
    by (simp_all add: complete_lines_def users_table_unfold [of "[]"] fgets_def)
  show ?thesis
    using add_user_after_unterminated_line [OF nil(1) plain(1) _ nil(2) _ plain(2) length_demo_hash _ added]
    by simp
qed

end
