(* ===== verification/Sqmp_Server.thy ===== *)
theory Sqmp_Server
  imports Sqmp_Protocol Sqmp_Users
begin

text \<open>
  \<^verbatim>\<open>src/server/server.c\<close>: the callbacks that MsQuic's threads run and the main thread that
  authenticates queued sessions. The main loop is cut into the steps between which callbacks and
  signals can run (its accesses to shared memory and its library calls); a step relation
  interleaves them with the events of MsQuic.
\<close>

section \<open>State\<close>

text \<open>Where the main thread is in \<^verbatim>\<open>main\<close>'s loop; \<open>a\<close> is the session \<^verbatim>\<open>pending\<close>. Between
  \<open>MainTested\<close> and \<open>MainWaiting\<close> lies the call of \<^verbatim>\<open>sem_wait\<close>: \<^verbatim>\<open>g_stop\<close> has been tested, the thread
  does not wait yet. \<open>MainCopied\<close> carries the local buffer \<^verbatim>\<open>username\<close>, \<open>MainVerified\<close> and
  \<open>MainRegistered\<close> the variable \<^verbatim>\<open>ok\<close>.\<close>

datatype server_pc =
    MainLoop
  | MainTested
  | MainWaiting
  | MainDequeued addr
  | MainUnqueued addr
  | MainAlive addr
  | MainCopied addr bytes
  | MainVerified addr bool
  | MainAdded addr
  | MainRegistered addr bool
  | MainExit
  | MainReturned

record server_state = sqmp_state +
  g_stop :: bool
  users_file :: "bytes option"
  server_ctx :: addr
  server_pc :: server_pc

definition sig_handler :: "server_state \<Rightarrow> server_state" where
  "sig_handler p = p\<lparr>g_stop := True\<rparr>"

section \<open>Callbacks\<close>

definition server_process_bye ::
  "addr option \<Rightarrow> 'a sqmp_state_scheme \<Rightarrow> fault + 'a sqmp_state_scheme" where
  "server_process_bye session p =
     bindr (get_session p session) (\<lambda>v.
     if s_state v = SQMP_SESSION_STATE_CONN_ESTABLISHED
     then bindr (sqmp_registry_remove (g_registry p) (s_username v) (s_username_len v)) (\<lambda>reg.
       Inr (put_session (the session) (v\<lparr>s_state := SQMP_SESSION_STATE_CLOSING\<rparr>)
              (p\<lparr>g_registry := reg\<rparr>)))
     else Inr p)"

definition server_on_stream_closed :: "addr \<Rightarrow> 'a sqmp_state_scheme \<Rightarrow> fault + 'a sqmp_state_scheme" where
  "server_on_stream_closed stream p =
     bindr (sqmp_stream_get_user_data stream p) (\<lambda>session. case session of
       None \<Rightarrow> Inr p
     | Some a \<Rightarrow> bindr (get_session p session) (\<lambda>v. Inr (put_session a (v\<lparr>s_auth_stream := None\<rparr>) p)))"

definition server_on_connected ::
  "env \<Rightarrow> addr \<Rightarrow> 'a sqmp_state_scheme \<Rightarrow> fault + 'a sqmp_state_scheme" where
  "server_on_connected env conn p =
     (let (mem, p1) = alloc env p in
      case mem of
        None \<Rightarrow> Inr p1
      | Some a \<Rightarrow> sqmp_conn_set_user_data conn (Some a) (put_session a new_session p1))"

definition server_on_stream_open ::
  "addr \<Rightarrow> addr \<Rightarrow> 'a sqmp_state_scheme \<Rightarrow> fault + 'a sqmp_state_scheme" where
  "server_on_stream_open conn stream p =
     bindr (sqmp_conn_get_user_data conn p) (\<lambda>d. sqmp_stream_set_user_data stream d p)"

definition server_on_stream_recv ::
  "env \<Rightarrow> addr \<Rightarrow> bytes \<Rightarrow> nat \<Rightarrow> 'a sqmp_state_scheme \<Rightarrow> fault + 'a sqmp_state_scheme" where
  "server_on_stream_recv env stream d len p =
     (if len < SQMP_PKT_FIXED_LEN then Inr p
      else
        bindr (sqmp_stream_get_user_data stream p) (\<lambda>session.
        bindr (get_msg_type d) (\<lambda>ty.
        if ty = msg_code SQMP_MSG_TYPE_HELLO then sqmp_process_hello env stream session d p
        else if ty = msg_code SQMP_MSG_TYPE_AUTH_REQ then sqmp_process_auth_req env stream session d p
        else if ty = msg_code SQMP_MSG_TYPE_KEY_REQ then sqmp_process_key_req env stream session d p
        else if ty = msg_code SQMP_MSG_TYPE_CHAT_SEND then sqmp_process_chat_send env stream session d p
        else if ty = msg_code SQMP_MSG_TYPE_ERROR then weak_process_error p
        else if ty = msg_code SQMP_MSG_TYPE_BYE then server_process_bye session p
        else Inr p)))"

definition server_on_disconnected :: "addr \<Rightarrow> 'a sqmp_state_scheme \<Rightarrow> fault + 'a sqmp_state_scheme" where
  "server_on_disconnected conn p =
     bindr (sqmp_conn_get_user_data conn p) (\<lambda>session. case session of
       None \<Rightarrow> Inr p
     | Some a \<Rightarrow>
         bindr (get_session p session) (\<lambda>v.
         if s_auth_queued v then Inr (put_session a (v\<lparr>s_conn_closed := True\<rparr>) p)
         else
           bindr (if s_state v = SQMP_SESSION_STATE_CONN_ESTABLISHED
                  then sqmp_registry_remove (g_registry p) (s_username v) (s_username_len v)
                  else Inr (g_registry p)) (\<lambda>reg.
           Inr (p\<lparr>g_registry := reg, sessions := (sessions p)(a := None)\<rparr>))))"

definition server_config :: "env \<Rightarrow> ('a sqmp_state_scheme) sqmp_quic_config" where
  "server_config env = \<lparr>cfg_app_name = Some (ascii ''squimpchat-server''), cfg_idle_timeout_ms = 30000,
     cfg_on_connected = Some (server_on_connected env),
     cfg_on_disconnected = Some server_on_disconnected,
     cfg_on_stream_open = Some server_on_stream_open,
     cfg_on_stream_recv = Some (server_on_stream_recv env),
     cfg_on_stream_peer_send_done = None,
     cfg_on_stream_closed = Some server_on_stream_closed\<rparr>"

section \<open>The main thread\<close>

definition send_auth_resp ::
  "env \<Rightarrow> addr option \<Rightarrow> addr \<Rightarrow> bool \<Rightarrow> 'a sqmp_state_scheme \<Rightarrow> fault + 'a sqmp_state_scheme" where
  "send_auth_resp env stream session ok p =
     bindr (get_session p (Some session)) (\<lambda>v.
       send_pkt env stream
         (enc_pkt (make_pkt SQMP_MSG_TYPE_AUTH_RESP (s_session_id v))
          @ enc_auth_resp \<lparr>auth_resp_status =
                auth_status_code (if ok then SQMP_AUTH_STATUS_OK else SQMP_AUTH_STATUS_INVALID),
              auth_resp_session_id = s_session_id v, auth_resp_reserved = zeros 3\<rparr>) p)"

text \<open>\<^verbatim>\<open>char username[33] = {0}; memcpy(username, pending->auth_username, pending->auth_username_len)\<close>\<close>

definition main_copy :: "sqmp_session \<Rightarrow> fault + bytes" where
  "main_copy v =
     bindr (rdn (s_auth_username v) 0 (unat (s_auth_username_len v))) (\<lambda>name.
       memcpy (zeros (SQMP_USERNAME_MAX_LEN + 1)) name)"

text \<open>The call of \<^verbatim>\<open>sqmp_registry_add\<close> after a successful check.\<close>

definition main_add :: "addr \<Rightarrow> 'a sqmp_state_scheme \<Rightarrow> fault + int \<times> 'a sqmp_state_scheme" where
  "main_add a p =
     bindr (get_session p (Some a)) (\<lambda>v.
     bindr (sqmp_registry_add (g_registry p) (s_auth_username v) (s_auth_username_len v)
              (s_auth_stream v) (s_auth_pubkey v)) (\<lambda>(r, reg). Inr (r, p\<lparr>g_registry := reg\<rparr>)))"

text \<open>The assignments that establish the session. \<^verbatim>\<open>state\<close> is stored last, and no handler reads
  the name of a session that is not established.\<close>

definition main_establish :: "addr \<Rightarrow> 'a sqmp_state_scheme \<Rightarrow> fault + 'a sqmp_state_scheme" where
  "main_establish a p =
     bindr (get_session p (Some a)) (\<lambda>v.
     bindr (rdn (s_auth_username v) 0 (unat (s_auth_username_len v))) (\<lambda>name.
     bindr (memcpy (s_username v) name) (\<lambda>username.
       Inr (put_session a
         (v\<lparr>s_username_len := s_auth_username_len v, s_username := username,
            s_state := SQMP_SESSION_STATE_CONN_ESTABLISHED\<rparr>) p))))"

text \<open>The end of \<^verbatim>\<open>main\<close>, after the loop.\<close>

definition main_exit :: "env \<Rightarrow> server_state \<Rightarrow> fault + server_state" where
  "main_exit env p =
     bindr (if g_stop p
            then bindr (sqmp_registry_send_bye_all env p) sqmp_registry_shutdown_connections
            else Inr p) (\<lambda>p1.
     bindr (sqmp_quic_destroy (Some (server_ctx p1)) p1) (\<lambda>p2.
       Inr (p2\<lparr>server_pc := MainReturned\<rparr>)))"

text \<open>The loop condition after \<^verbatim>\<open>sqmp_auth_queue_dequeue\<close> has returned.\<close>

definition main_take :: "fault + addr option \<times> server_state \<Rightarrow> fault + server_state" where
  "main_take r = bindr r (\<lambda>(pending, p).
     Inr (p\<lparr>server_pc := (case pending of None \<Rightarrow> MainExit | Some a \<Rightarrow> MainDequeued a)\<rparr>))"

text \<open>One step of the main thread; \<open>None\<close> while it is blocked in \<^verbatim>\<open>sem_wait\<close> or has returned.\<close>

fun main_step :: "env \<Rightarrow> server_pc \<Rightarrow> server_state \<Rightarrow> (fault + server_state) option" where
  "main_step env MainLoop p =
     Some (Inr (p\<lparr>server_pc := (if g_stop p then MainExit else MainTested)\<rparr>))"
| "main_step env MainTested p =
     Some (case sqmp_auth_queue_dequeue False p of
         None \<Rightarrow> Inr (p\<lparr>server_pc := MainWaiting\<rparr>)
       | Some r \<Rightarrow> main_take r)"
| "main_step env MainWaiting p = map_option main_take (sqmp_auth_queue_dequeue False p)"
| "main_step env (MainDequeued a) p =
     Some (bindr (get_session p (Some a)) (\<lambda>v.
       Inr ((put_session a (v\<lparr>s_auth_queued := False\<rparr>) p)\<lparr>server_pc := MainUnqueued a\<rparr>)))"
| "main_step env (MainUnqueued a) p =
     Some (bindr (get_session p (Some a)) (\<lambda>v.
       if s_conn_closed v
       then Inr (p\<lparr>sessions := (sessions p)(a := None), server_pc := MainLoop\<rparr>)
       else Inr (p\<lparr>server_pc := MainAlive a\<rparr>)))"
| "main_step env (MainAlive a) p =
     Some (bindr (get_session p (Some a)) (\<lambda>v.
       bindr (main_copy v) (\<lambda>username. Inr (p\<lparr>server_pc := MainCopied a username\<rparr>))))"
| "main_step env (MainCopied a username) p =
     Some (bindr (get_session p (Some a)) (\<lambda>v.
       bindr (verify_credentials (users_file p) username (s_auth_password_hash v)) (\<lambda>ok.
         Inr (p\<lparr>server_pc := MainVerified a ok\<rparr>))))"
| "main_step env (MainVerified a ok) p =
     Some (if ok
           then bindr (main_add a p) (\<lambda>(r, p1).
             Inr (p1\<lparr>server_pc := (if r = 0 then MainAdded a else MainRegistered a False)\<rparr>))
           else Inr (p\<lparr>server_pc := MainRegistered a False\<rparr>))"
| "main_step env (MainAdded a) p =
     Some (bindr (main_establish a p) (\<lambda>p1. Inr (p1\<lparr>server_pc := MainRegistered a True\<rparr>)))"
| "main_step env (MainRegistered a ok) p =
     Some (bindr (get_session p (Some a)) (\<lambda>v.
       bindr (if s_auth_stream v \<noteq> None then send_auth_resp env (s_auth_stream v) a ok p else Inr p) (\<lambda>p1.
         Inr (p1\<lparr>server_pc := MainLoop\<rparr>))))"
| "main_step env MainExit p = Some (main_exit env p)"
| "main_step env MainReturned p = None"

text \<open>
  A signal. Only the main thread takes it: the others inherit a mask that blocks it. The handler sets
  \<^verbatim>\<open>g_stop\<close>; a signal that finds the thread waiting also makes \<^verbatim>\<open>sem_wait\<close> fail (there is no
  \<^verbatim>\<open>SA_RESTART\<close>), \<^verbatim>\<open>sqmp_auth_queue_dequeue\<close> returns \<^verbatim>\<open>NULL\<close> and the loop ends. A signal before
  that does not.
\<close>

definition server_signal :: "server_state \<Rightarrow> fault + server_state" where
  "server_signal p =
     (if server_pc p = MainWaiting
      then (case sqmp_auth_queue_dequeue True (sig_handler p) of
          None \<Rightarrow> Inr (sig_handler p)
        | Some r \<Rightarrow> main_take r)
      else Inr (sig_handler p))"

section \<open>The server as a transition system\<close>

text \<open>What can happen: a step of the main thread, a signal, or a callback of MsQuic. A fault ends
  the run.\<close>

inductive server_step :: "env \<Rightarrow> server_state \<Rightarrow> server_state \<Rightarrow> bool" for env where
  main: "main_step env (server_pc p) p = Some (Inr p') \<Longrightarrow> server_step env p p'"
| signal: "server_signal p = Inr p' \<Longrightarrow> server_step env p p'"
| accept: "listener_cb env (server_ctx p) ev p = Inr (st, p') \<Longrightarrow> server_step env p p'"
| conn_event: "conn_cb env (server_config env) c ev p = Inr p' \<Longrightarrow> server_step env p p'"
| stream_event: "stream_cb env (server_config env) st ev p = Inr p' \<Longrightarrow> server_step env p p'"

inductive_cases server_stepE: "server_step env p p'"

text \<open>The state in which \<^verbatim>\<open>main\<close> enters its loop: nothing connected, the queue initialised, the
  listener running on context \<open>ctx\<close>.\<close>

definition server_started :: "server_state \<Rightarrow> bool" where
  "server_started p \<longleftrightarrow> sessions p = Map.empty \<and> qs_conns p = Map.empty \<and> qs_streams p = Map.empty
     \<and> g_registry p = g_registry_init \<and> g_auth_queue_head p = None \<and> g_auth_queue_tail p = None
     \<and> g_auth_queue_sem p = 0 \<and> g_next_session_id p = 1 \<and> server_pc p = MainLoop \<and> \<not> g_stop p
     \<and> (\<exists>x. qs_ctxs p (server_ctx p) = Some x)"

inductive server_reach :: "env \<Rightarrow> server_state \<Rightarrow> bool" for env where
  start: "server_started p \<Longrightarrow> server_reach env p"
| step: "server_reach env p \<Longrightarrow> server_step env p p' \<Longrightarrow> server_reach env p'"

section \<open>Start-up\<close>

definition SERVER_PORT :: u16 where "SERVER_PORT = 4433"
definition SERVER_ALPN :: bytes where "SERVER_ALPN = ascii ''squimp''"
definition SERVER_CERT :: bytes where "SERVER_CERT = ascii ''certs/server.crt''"
definition SERVER_KEY :: bytes where "SERVER_KEY = ascii ''certs/server.key''"

text \<open>\<^verbatim>\<open>main\<close> up to the loop, from the zeroed globals. \<open>Some code\<close> is an early return.\<close>

definition server_boot :: "env \<Rightarrow> server_state \<Rightarrow> fault + int option \<times> server_state" where
  "server_boot env p =
     (let (ctx, p1) = sqmp_quic_init env (server_config env :: (server_state) sqmp_quic_config) p in
      case ctx of
        None \<Rightarrow> Inr (Some 1, p1)
      | Some c \<Rightarrow>
          let p2 = sqmp_auth_queue_init (p1\<lparr>server_ctx := c\<rparr>) in
          bindr (sqmp_quic_listen env c SERVER_ALPN SERVER_PORT SERVER_CERT SERVER_KEY p2) (\<lambda>(r, p3).
            if r \<noteq> 0 then bindr (sqmp_quic_destroy ctx p3) (\<lambda>p4. Inr (Some 1, p4))
            else Inr (None, p3\<lparr>server_pc := MainLoop\<rparr>)))"

section \<open>An invariant of every reachable state\<close>

text \<open>Every session's arrays and lengths fit, and the registry is well-formed.\<close>

definition server_inv :: "'a sqmp_state_scheme \<Rightarrow> bool" where
  "server_inv p \<longleftrightarrow> (\<forall>a v. sessions p a = Some v \<longrightarrow> wf_session v) \<and> wf_registry (g_registry p)"

lemma server_inv_session: "server_inv p \<Longrightarrow> sessions p a = Some v \<Longrightarrow> wf_session v"
  by (simp add: server_inv_def)

lemma server_inv_frame:
  "server_inv p \<Longrightarrow> sessions p' = sessions p \<Longrightarrow> g_registry p' = g_registry p \<Longrightarrow> server_inv p'"
  by (simp add: server_inv_def)

lemma server_inv_put: "server_inv p \<Longrightarrow> wf_session v \<Longrightarrow> server_inv (put_session a v p)"
  by (simp add: server_inv_def)

lemma server_inv_handler:
  assumes "handler_frame p p'" and "server_inv p"
  shows "server_inv p'"
  unfolding server_inv_def
proof (intro conjI allI impI)
  show "wf_registry (g_registry p')" using assms by (simp add: handler_frame_def server_inv_def)
  fix a v' assume v': "sessions p' a = Some v'"
  then obtain v where v: "sessions p a = Some v"
    using assms(1) unfolding handler_frame_def sessions_evolve_def by blast
  with v' assms show "wf_session v'"
    unfolding handler_frame_def sessions_evolve_def session_evolves_def server_inv_def by blast
qed

lemma registry_remove_wf:
  assumes "wf_registry reg" and "unat n \<le> length u" and "sqmp_registry_remove reg u n = Inr reg'"
  shows "wf_registry reg'"
  using reg.remove_spec [OF assms(1,2)] assms(3) by auto

lemma wf_session_names: "wf_session v \<Longrightarrow> unat (s_username_len v) \<le> length (s_username v)"
  "wf_session v \<Longrightarrow> unat (s_auth_username_len v) \<le> length (s_auth_username v)"
  by (simp_all add: wf_session_def)

lemma server_process_bye_inv:
  assumes "server_process_bye s p = Inr p'" and "server_inv p"
  shows "server_inv p'"
proof -
  obtain a v where v: "s = Some a" "sessions p a = Some v"
    using assms(1) by (auto simp: server_process_bye_def bindr_eq_Inr_iff get_session_eq_Inr_iff)
  then have wf: "wf_session v" "wf_registry (g_registry p)" using assms(2) by (auto simp: server_inv_def)
  then have "wf_session (v\<lparr>s_state := SQMP_SESSION_STATE_CLOSING\<rparr>)" by (simp add: wf_session_def)
  then show ?thesis
    using assms v registry_remove_wf [OF wf(2) wf_session_names(1) [OF wf(1)]]
    by (auto simp: server_process_bye_def bindr_eq_Inr_iff server_inv_def split: if_splits)
qed

lemma server_on_stream_recv_inv:
  assumes "server_on_stream_recv env st d n p = Inr p'" and "server_inv p"
  shows "server_inv p'"
  using assms
  by (auto simp: server_on_stream_recv_def bindr_eq_Inr_iff weak_process_error_def server_process_bye_inv
      split: if_splits dest!: handler_frames intro: server_inv_handler)

lemma server_on_disconnected_cases:
  assumes "server_on_disconnected c p = Inr p'"
  obtains (no_session) "p' = p"
  | (queued) a v where "sessions p a = Some v" and "s_auth_queued v" and "p' = put_session a (v\<lparr>s_conn_closed := True\<rparr>) p"
  | (freed) a v reg where "sessions p a = Some v" and "\<not> s_auth_queued v"
      and "if s_state v = SQMP_SESSION_STATE_CONN_ESTABLISHED
           then sqmp_registry_remove (g_registry p) (s_username v) (s_username_len v) = Inr reg else reg = g_registry p"
      and "p' = p\<lparr>g_registry := reg, sessions := (sessions p)(a := None)\<rparr>"
proof -
  obtain s where s: "sqmp_conn_get_user_data c p = Inr s"
    using assms by (auto simp: server_on_disconnected_def bindr_eq_Inr_iff)
  show thesis
  proof (cases s)
    case None
    then show thesis using s assms no_session by (simp add: server_on_disconnected_def)
  next
    case (Some a)
    then obtain v where v: "sessions p a = Some v"
      using s assms by (auto simp: server_on_disconnected_def bindr_eq_Inr_iff get_session_eq_Inr_iff)
    show thesis
    proof (cases "s_auth_queued v")
      case True
      then show thesis using s Some v assms queued [of a v] by (simp add: server_on_disconnected_def)
    next
      case False
      then obtain reg where "p' = p\<lparr>g_registry := reg, sessions := (sessions p)(a := None)\<rparr>"
        and "(if s_state v = SQMP_SESSION_STATE_CONN_ESTABLISHED
           then sqmp_registry_remove (g_registry p) (s_username v) (s_username_len v) else Inr (g_registry p)) = Inr reg"
        using s Some v assms by (auto simp: server_on_disconnected_def bindr_eq_Inr_iff)
      then show thesis using False v freed [of a v reg] by (auto split: if_splits)
    qed
  qed
qed

lemma server_on_disconnected_inv:
  assumes "server_on_disconnected c p = Inr p'" and "server_inv p"
  shows "server_inv p'"
  using assms(1)
proof (cases rule: server_on_disconnected_cases)
  case no_session
  then show ?thesis using assms(2) by simp
next
  case (queued a v)
  then show ?thesis
    using server_inv_session [OF assms(2), of a v] assms(2) by (simp add: server_inv_put wf_session_def)
next
  case (freed a v reg)
  then have "wf_registry reg"
    using assms(2) registry_remove_wf [OF _ wf_session_names(1) [OF server_inv_session [OF assms(2) freed(1)]]]
    by (auto simp: server_inv_def split: if_splits)
  then show ?thesis using assms(2) freed by (simp add: server_inv_def)
qed

lemma server_on_connected_inv:
  "server_on_connected env c p = Inr p' \<Longrightarrow> server_inv p \<Longrightarrow> server_inv p'"
  by (auto simp: server_on_connected_def alloc_def sqmp_conn_set_user_data_def bindr_eq_Inr_iff server_inv_def
      split: if_splits)

lemma server_on_stream_closed_inv:
  assumes "server_on_stream_closed st p = Inr p'" and "server_inv p"
  shows "server_inv p'"
proof -
  have "wf_session (v\<lparr>s_auth_stream := b\<rparr>)" if "sessions p a = Some v" for a v b
    using server_inv_session [OF assms(2) that] by (simp add: wf_session_def)
  then show ?thesis
    using assms by (auto simp: server_on_stream_closed_def bindr_eq_Inr_iff get_session_eq_Inr_iff server_inv_put
        split: option.splits)
qed

lemma server_on_stream_open_inv:
  "server_on_stream_open c st p = Inr p' \<Longrightarrow> server_inv p \<Longrightarrow> server_inv p'"
  by (auto simp: server_on_stream_open_def sqmp_stream_set_user_data_def bindr_eq_Inr_iff server_inv_def)

interpretation srv: quic_application "server_config env" server_inv for env
proof unfold_locales
  show "server_inv p \<Longrightarrow> server_inv (p\<lparr>qs_ctxs := xs\<rparr>)" for p :: "'a sqmp_state_scheme" and xs
    by (simp add: server_inv_def)
  show "server_inv p \<Longrightarrow> server_inv (p\<lparr>qs_conns := cs\<rparr>)" for p :: "'a sqmp_state_scheme" and cs
    by (simp add: server_inv_def)
  show "server_inv p \<Longrightarrow> server_inv (p\<lparr>qs_streams := ss\<rparr>)" for p :: "'a sqmp_state_scheme" and ss
    by (simp add: server_inv_def)
  show "server_inv p \<Longrightarrow> server_inv (p\<lparr>qs_sendbufs := bs\<rparr>)" for p :: "'a sqmp_state_scheme" and bs
    by (simp add: server_inv_def)
  show "server_inv p \<Longrightarrow> server_inv (p\<lparr>qs_calls := ks\<rparr>)" for p :: "'a sqmp_state_scheme" and ks
    by (simp add: server_inv_def)
  show "server_inv p \<Longrightarrow> server_inv (p\<lparr>qs_allocs := n\<rparr>)" for p :: "'a sqmp_state_scheme" and n
    by (simp add: server_inv_def)
qed (auto simp: server_config_def dest: server_on_connected_inv server_on_disconnected_inv
      server_on_stream_open_inv server_on_stream_recv_inv server_on_stream_closed_inv)

lemma server_inv_upd [simp]:
  "server_inv (p\<lparr>server_pc := pc\<rparr>) \<longleftrightarrow> server_inv (p :: server_state)"
  "server_inv (p\<lparr>g_stop := b\<rparr>) \<longleftrightarrow> server_inv (p :: server_state)"
  "server_inv (q\<lparr>g_auth_queue_sem := n\<rparr>) \<longleftrightarrow> server_inv q"
  "server_inv (q\<lparr>g_auth_queue_head := h\<rparr>) \<longleftrightarrow> server_inv q" "server_inv (q\<lparr>g_auth_queue_tail := h\<rparr>) \<longleftrightarrow> server_inv q"
  by (simp_all add: server_inv_def)

lemma server_inv_free: "server_inv p \<Longrightarrow> server_inv (p\<lparr>sessions := (sessions p)(a := None)\<rparr>)"
  by (simp add: server_inv_def)

lemma dequeue_inv:
  assumes "sqmp_auth_queue_dequeue i p = Some (Inr (r, p'))" and "server_inv p"
  shows "server_inv p'"
proof -
  have "wf_session (v\<lparr>s_next := n\<rparr>)" if "sessions p a = Some v" for a v n
    using server_inv_session [OF assms(2) that] by (simp add: wf_session_def)
  then show ?thesis
    using assms
    by (auto simp: sqmp_auth_queue_dequeue_def auth_queue_take_def bindr_eq_Inr_iff get_session_eq_Inr_iff
        server_inv_put Let_def split: if_splits option.splits)
qed

lemma dequeue_interrupted: "sqmp_auth_queue_dequeue True p = Some (Inr (None, p))"
  by (simp add: sqmp_auth_queue_dequeue_def)

lemma main_take_inv:
  assumes "sqmp_auth_queue_dequeue i p = Some r" and "main_take r = Inr p'" and "server_inv p"
  shows "server_inv p'"
  using assms dequeue_inv [of i p] by (auto simp: main_take_def bindr_eq_Inr_iff)

lemma main_add_inv:
  assumes "main_add a p = Inr (r, p')" and "server_inv p"
  shows "server_inv p'"
proof -
  obtain v where v: "sessions p a = Some v" "wf_session v"
    using assms by (auto simp: main_add_def bindr_eq_Inr_iff get_session_eq_Inr_iff server_inv_def)
  have "wf_registry reg"
    if "sqmp_registry_add (g_registry p) (s_auth_username v) (s_auth_username_len v) st (s_auth_pubkey v) = Inr (r, reg)" for r reg st
    using reg.add_invar [OF _ _ _ _ that] v(2) assms(2) by (simp add: wf_session_def server_inv_def)
  then show ?thesis using assms v by (auto simp: main_add_def bindr_eq_Inr_iff server_inv_def)
qed

lemma main_establish_inv:
  assumes "main_establish a p = Inr p'" and "server_inv p"
  shows "server_inv p'"
proof -
  obtain v where v: "sessions p a = Some v" "wf_session v"
    using assms by (auto simp: main_establish_def bindr_eq_Inr_iff get_session_eq_Inr_iff server_inv_def)
  have "wf_session (v\<lparr>s_username_len := s_auth_username_len v, s_username := u, s_state := s\<rparr>)"
    if "memcpy (s_username v) b = Inr u" for u b s
    using v(2) memcpy_InrD [OF that] by (simp add: wf_session_def)
  then show ?thesis using assms v by (auto simp: main_establish_def bindr_eq_Inr_iff server_inv_put)
qed

lemma send_bye_entries_same_app: "send_bye_entries env es p = Inr p' \<Longrightarrow> same_app p p'"
  by (induction es arbitrary: p)
     (auto simp: bindr_eq_Inr_iff split: if_splits dest!: same_app_send_pkt intro: same_app_trans)

lemma same_app_api_do [simp]: "same_app (api_do c p) q \<longleftrightarrow> same_app p q"
  by (simp add: same_app_def api_do_def)

lemma shutdown_entries_same_app: "shutdown_entries es p = Inr p' \<Longrightarrow> same_app p p'"
  by (induction es arbitrary: p) (fastforce simp: bindr_eq_Inr_iff split: if_splits)+

lemma main_exit_inv:
  assumes "main_exit env p = Inr p'" and "server_inv p"
  shows "server_inv p'"
proof -
  obtain p1 p2 where fin: "(if g_stop p
      then bindr (sqmp_registry_send_bye_all env p) sqmp_registry_shutdown_connections else Inr p) = Inr p1"
    and p2: "sqmp_quic_destroy (Some (server_ctx p1)) p1 = Inr p2" and p': "p' = p2\<lparr>server_pc := MainReturned\<rparr>"
    using assms(1) by (auto simp: main_exit_def bindr_eq_Inr_iff)
  have p1: "same_app p p1"
    using fin by (auto simp: bindr_eq_Inr_iff sqmp_registry_send_bye_all_def sqmp_registry_shutdown_connections_def
        split: if_splits dest!: send_bye_entries_same_app shutdown_entries_same_app intro: same_app_trans)
  have "sessions p2 = sessions p1" "g_registry p2 = g_registry p1"
    using p2 by (auto simp: sqmp_quic_destroy_def bindr_eq_Inr_iff api_do_def Let_def split: if_splits)
  then show ?thesis using p1 p' assms(2) by (auto simp: same_app_def intro: server_inv_frame)
qed

lemma main_step_inv:
  assumes "main_step env pc p = Some (Inr p')" and "server_inv p"
  shows "server_inv p'"
proof (cases pc)
  case MainTested
  show ?thesis
  proof (cases "sqmp_auth_queue_dequeue False p")
    case None
    then show ?thesis using assms MainTested by auto
  next
    case (Some r)
    then show ?thesis using assms MainTested main_take_inv [OF Some _ assms(2)] by simp
  qed
next
  case MainWaiting
  then show ?thesis using assms main_take_inv by auto
next
  case (MainDequeued a)
  moreover have "wf_session (v\<lparr>s_auth_queued := b\<rparr>)" if "sessions p a = Some v" for v b
    using server_inv_session [OF assms(2) that] by (simp add: wf_session_def)
  ultimately show ?thesis using assms by (auto simp: bindr_eq_Inr_iff get_session_eq_Inr_iff server_inv_put)
next
  case (MainUnqueued a)
  then show ?thesis using assms by (auto simp: bindr_eq_Inr_iff server_inv_free split: if_splits)
next
  case (MainAlive a)
  then show ?thesis using assms by (auto simp: bindr_eq_Inr_iff)
next
  case (MainCopied a u)
  then show ?thesis using assms by (auto simp: bindr_eq_Inr_iff)
next
  case (MainVerified a ok)
  then show ?thesis using assms main_add_inv by (auto simp: bindr_eq_Inr_iff split: if_splits)
next
  case (MainAdded a)
  then show ?thesis using assms main_establish_inv by (auto simp: bindr_eq_Inr_iff)
next
  case (MainRegistered a ok)
  then show ?thesis
    using assms
    by (auto simp: bindr_eq_Inr_iff send_auth_resp_def same_app_def split: if_splits
        dest!: same_app_send_pkt intro: server_inv_frame)
next
  case MainExit
  then show ?thesis using assms main_exit_inv by auto
qed (use assms in auto)

lemma server_signal_inv: "server_signal p = Inr p' \<Longrightarrow> server_inv p \<Longrightarrow> server_inv p'"
  by (auto simp: server_signal_def sig_handler_def dequeue_interrupted main_take_def split: if_splits)

lemma server_step_inv: "server_step env p p' \<Longrightarrow> server_inv p \<Longrightarrow> server_inv p'"
  by (induction rule: server_step.induct)
     (auto simp: main_step_inv server_signal_inv intro: srv.inv_listener_cb srv.inv_conn_cb srv.inv_stream_cb)

lemma server_started_inv: "server_started p \<Longrightarrow> server_inv p"
  by (simp add: server_started_def server_inv_def wf_registry_init)

text \<open>C4: memory layout and registry invariant of the running server. In every state that any
  interleaving of the main thread, signals and MsQuic events can reach from start-up, every
  session's name lengths fit their 32-byte arrays, and the registry has its 64 entries, with names
  of at most 32 bytes, no two live entries with the same name.\<close>

theorem server_reachable_invariant:
  assumes "server_reach env p"
  shows "(\<forall>a v. sessions p a = Some v \<longrightarrow> wf_session v) \<and> wf_registry (g_registry p)"
proof -
  from assms have "server_inv p"
    by (induction rule: server_reach.induct) (auto dest: server_started_inv server_step_inv)
  then show ?thesis by (simp add: server_inv_def)
qed

definition server_start :: server_state where
  "server_start = \<lparr>
     qs_ctxs = [1 \<mapsto> \<lparr>ctx_reg = 1, ctx_config = 2, ctx_listener = 3, ctx_idle_timeout_ms = 30000\<rparr>],
     qs_conns = Map.empty, qs_streams = Map.empty, qs_sendbufs = Map.empty, qs_allocs = 1, qs_calls = [],
     sessions = Map.empty, g_next_session_id = 1, g_auth_queue_sem = 0, g_auth_queue_head = None,
     g_auth_queue_tail = None, g_registry = g_registry_init, console = [], g_stop = False,
     users_file = None, server_ctx = 1, server_pc = MainLoop\<rparr>"

lemma server_started_start: "server_started server_start"
  by (simp add: server_started_def server_start_def)

theorem server_reachable_invariant_witness:
  "server_reach env_ok (sig_handler server_start) \<and> wf_registry (g_registry (sig_handler server_start))"
proof -
  have "server_reach env_ok (sig_handler server_start)"
    by (rule server_reach.step [OF server_reach.start [OF server_started_start] server_step.signal])
       (simp add: server_signal_def server_start_def)
  with server_reachable_invariant [OF this] show ?thesis by blast
qed

section \<open>One authentication, undisturbed\<close>

text \<open>\<open>n\<close> steps of the main thread in a row.\<close>

fun main_run :: "env \<Rightarrow> nat \<Rightarrow> server_state \<Rightarrow> (fault + server_state) option" where
  "main_run env 0 p = Some (Inr p)"
| "main_run env (Suc n) p = (case main_step env (server_pc p) p of
       Some (Inr p') \<Rightarrow> main_run env n p'
     | r \<Rightarrow> r)"

lemma main_run_SucI:
  "main_step env (server_pc p) p = Some (Inr p') \<Longrightarrow> main_run env (Suc n) p = main_run env n p'"
  by simp

lemma main_run_1: "main_run env 1 p = main_step env (server_pc p) p"
  by (simp split: option.split sum.split)

declare main_run.simps(2) [simp del]

lemma cstr_append_zeros: "0 < k \<Longrightarrow> cstr (b @ zeros k) = cstr b"
  by (cases k) (auto simp: cstr_def zeros_def takeWhile_append intro!: sym [OF takeWhile_eq_all_conv [THEN iffD2]])

lemma main_copy_eq:
  assumes "wf_session v"
  shows "main_copy v = Inr (s_auth_name v @ zeros (33 - unat (s_auth_username_len v)))"
proof -
  have n: "unat (s_auth_username_len v) \<le> 32" "length (s_auth_username v) = 32" using assms by (simp_all add: wf_session_def)
  then have "rdn (s_auth_username v) 0 (unat (s_auth_username_len v)) = Inr (s_auth_name v)"
    by (simp add: rdn_def s_auth_name_def)
  moreover have "memcpy (zeros 33) (s_auth_name v) = Inr (s_auth_name v @ zeros (33 - unat (s_auth_username_len v)))"
    using n by (simp add: memcpy_def s_auth_name_def zeros_def)
  ultimately show ?thesis by (simp add: main_copy_def)
qed

text \<open>The copy ends in a \<^verbatim>\<open>NUL\<close>, so the check sees the name as it is stored.\<close>

lemma main_copy_verify:
  assumes "wf_session v" and "main_copy v = Inr u"
  shows "verify_credentials users u h = verify_credentials users (s_auth_name v) h"
proof -
  have "unat (s_auth_username_len v) \<le> 32" using assms(1) by (simp add: wf_session_def)
  then have "cstr u = cstr (s_auth_name v)"
    using assms(2) unfolding main_copy_eq [OF assms(1)] by (auto intro: cstr_append_zeros)
  then show ?thesis by (simp add: verify_credentials_def split: option.split)
qed

definition auth_resp_pkt :: "u32 \<Rightarrow> bool \<Rightarrow> bytes" where
  "auth_resp_pkt sid ok = enc_pkt (make_pkt SQMP_MSG_TYPE_AUTH_RESP sid)
     @ enc_auth_resp \<lparr>auth_resp_status = auth_status_code (if ok then SQMP_AUTH_STATUS_OK else SQMP_AUTH_STATUS_INVALID),
          auth_resp_session_id = sid, auth_resp_reserved = zeros 3\<rparr>"

lemma send_auth_resp_live:
  assumes "healthy env" and "live_stream p st" and "sessions p a = Some v"
  shows "send_auth_resp env (Some st) a ok p = Inr (after_send st (auth_resp_pkt (s_session_id v) ok) p)"
  using assms by (simp add: send_auth_resp_def auth_resp_pkt_def send_pkt_live enc_auth_resp_def)

lemma live_stream_cong:
  "qs_streams p' = qs_streams p \<Longrightarrow> qs_conns p' = qs_conns p \<Longrightarrow> qs_ctxs p' = qs_ctxs p \<Longrightarrow>
   live_stream p' st \<longleftrightarrow> live_stream p st"
  by (simp add: live_stream_def stream_chain_def)

lemma handle_of_cong: "qs_streams p' = qs_streams p \<Longrightarrow> handle_of p' st = handle_of p st"
  by (simp add: handle_of_def)

lemma sent_packets_cong: "qs_calls p' = qs_calls p \<Longrightarrow> sent_packets p' = sent_packets p"
  by (simp add: sent_packets_def)

lemma queue_inv_cong:
  "sessions p' = sessions p \<Longrightarrow> g_auth_queue_head p' = g_auth_queue_head p \<Longrightarrow>
   g_auth_queue_tail p' = g_auth_queue_tail p \<Longrightarrow> g_auth_queue_sem p' = g_auth_queue_sem p \<Longrightarrow>
   queue_inv p' as \<longleftrightarrow> queue_inv p as"
  by (simp add: queue_inv_def queue_repr_def)

text \<open>What registering a user and establishing its session do, on a state that satisfies the invariant.\<close>

lemma main_add_spec:
  assumes "server_inv p" and v: "sessions p a = Some v"
  shows "if registry_map (g_registry p) (s_auth_name v) = None \<and> \<not> registry_full (g_registry p)
    then \<exists>reg. main_add a p = Inr (0, p\<lparr>g_registry := reg\<rparr>) \<and> wf_registry reg
      \<and> registry_map reg = (registry_map (g_registry p))(s_auth_name v \<mapsto> (s_auth_stream v, s_auth_pubkey v))
    else main_add a p = Inr (-1, p)"
proof -
  have wf: "wf_session v" "wf_registry (g_registry p)" using assms by (auto simp: server_inv_def)
  then have n: "unat (s_auth_username_len v) \<le> 32" "length (s_auth_username v) = 32" "length (s_auth_pubkey v) = 32"
    by (simp_all add: wf_session_def)
  note add = reg.add_spec [OF wf(2), of "s_auth_username_len v" "s_auth_username v" "s_auth_pubkey v" "s_auth_stream v",
      folded s_auth_name_def]
  show ?thesis
  proof (cases "registry_map (g_registry p) (s_auth_name v) = None \<and> \<not> registry_full (g_registry p)")
    case True
    then obtain reg where "sqmp_registry_add (g_registry p) (s_auth_username v) (s_auth_username_len v)
        (s_auth_stream v) (s_auth_pubkey v) = Inr (0, reg)" "wf_registry reg"
        "registry_map reg = (registry_map (g_registry p))(s_auth_name v \<mapsto> (s_auth_stream v, s_auth_pubkey v))"
      using add n by auto
    then show ?thesis using True v by (simp add: main_add_def) blast
  next
    case False
    then show ?thesis using add n v by (auto simp: main_add_def)
  qed
qed

definition established_as :: "sqmp_session \<Rightarrow> sqmp_session" where
  "established_as v = v\<lparr>s_username_len := s_auth_username_len v,
     s_username := s_auth_name v @ drop (length (s_auth_name v)) (s_username v),
     s_state := SQMP_SESSION_STATE_CONN_ESTABLISHED\<rparr>"

lemma established_as_simps [simp]:
  "s_state (established_as v) = SQMP_SESSION_STATE_CONN_ESTABLISHED" "s_auth_stream (established_as v) = s_auth_stream v"
  "s_session_id (established_as v) = s_session_id v" "s_auth_queued (established_as v) = s_auth_queued v"
  "s_next (established_as v) = s_next v" "s_conn_closed (established_as v) = s_conn_closed v"
  "s_auth_pubkey (established_as v) = s_auth_pubkey v" "s_auth_password_hash (established_as v) = s_auth_password_hash v"
  "s_auth_name (established_as v) = s_auth_name v"
  by (simp_all add: established_as_def s_auth_name_def)

lemma established_as_name: "wf_session v \<Longrightarrow> s_name (established_as v) = s_auth_name v"
  by (simp add: established_as_def s_name_def s_auth_name_def wf_session_def)

lemma wf_established_as: "wf_session v \<Longrightarrow> wf_session (established_as v)"
  by (simp add: established_as_def wf_session_def s_auth_name_def)

lemma main_establish_eq:
  assumes "wf_session v" and "sessions p a = Some v"
  shows "main_establish a p = Inr (put_session a (established_as v) p)"
  using assms by (simp add: main_establish_def established_as_def rdn_def s_auth_name_def wf_session_def memcpy_def)

lemma queue_frame_server:
  assumes "queue_frame (p :: server_state) p'"
  shows "users_file p' = users_file p" "g_stop p' = g_stop p" "server_pc p' = server_pc p"
proof -
  have eq: "p' = p\<lparr>sessions := sessions p', g_auth_queue_head := g_auth_queue_head p',
      g_auth_queue_tail := g_auth_queue_tail p', g_auth_queue_sem := g_auth_queue_sem p'\<rparr>"
    using assms by (simp add: queue_frame_def)
  show "users_file p' = users_file p" using arg_cong [OF eq, of users_file] by simp
  show "g_stop p' = g_stop p" using arg_cong [OF eq, of g_stop] by simp
  show "server_pc p' = server_pc p" using arg_cong [OF eq, of server_pc] by simp
qed

definition queue_like :: "'a sqmp_state_scheme \<Rightarrow> 'a sqmp_state_scheme \<Rightarrow> bool" where
  "queue_like p p' \<longleftrightarrow> g_auth_queue_head p' = g_auth_queue_head p \<and> g_auth_queue_tail p' = g_auth_queue_tail p
     \<and> g_auth_queue_sem p' = g_auth_queue_sem p"

lemma dequeue_pc:
  assumes "sqmp_auth_queue_dequeue False p = Some (Inr (x, p1))"
  shows "sqmp_auth_queue_dequeue False (p\<lparr>server_pc := pc\<rparr>) = Some (Inr (x, p1\<lparr>server_pc := pc\<rparr>))"
  using assms
  by (cases p) (auto simp: sqmp_auth_queue_dequeue_def auth_queue_take_def bindr_eq_Inr_iff get_session_def put_session_def Let_def
      split: if_splits option.splits)

text \<open>The first six steps: the session is taken from the queue and its credentials are checked.\<close>

lemma main_run_check:
  assumes "server_inv p" and pc: "server_pc p = MainLoop" "\<not> g_stop p"
    and p1: "sqmp_auth_queue_dequeue False p = Some (Inr (Some a, p1))" "queue_frame p p1"
    and v: "sessions p a = Some v" "\<not> s_conn_closed v"
    and ok: "verify_credentials (users_file p) (s_auth_name v) (s_auth_password_hash v) = Inr ok"
  obtains p4 n where "\<forall>k. main_run env (k + 6) p = main_run env k p4" and "server_pc p4 = MainVerified a ok"
    and "queue_like p1 p4" and "server_inv p4" and "sessions p1 a = Some (v\<lparr>s_next := n\<rparr>)"
    and "sessions p4 = (sessions p1)(a \<mapsto> v\<lparr>s_next := n, s_auth_queued := False\<rparr>)"
    and "g_registry p4 = g_registry p" and "qs_calls p4 = qs_calls p" and "qs_streams p4 = qs_streams p"
    and "qs_conns p4 = qs_conns p" and "qs_ctxs p4 = qs_ctxs p" and "\<not> g_stop p4"
proof -
  obtain n where n: "sessions p1 a = Some (v\<lparr>s_next := n\<rparr>)" using queue_frame_session [OF p1(2) v(1)] .
  have inv1: "server_inv p1" using dequeue_inv [OF p1(1)] assms(1) by simp
  let ?v = "v\<lparr>s_next := n, s_auth_queued := False\<rparr>"
  have wf: "wf_session ?v"
    using server_inv_session [OF assms(1) v(1)] by (simp add: wf_session_def)
  define s0 where "s0 = p\<lparr>server_pc := MainTested\<rparr>"
  define s1 where "s1 = p1\<lparr>server_pc := MainDequeued a\<rparr>"
  define s2 where "s2 = (put_session a ?v s1)\<lparr>server_pc := MainUnqueued a\<rparr>"
  define s3 where "s3 = s2\<lparr>server_pc := MainAlive a\<rparr>"
  define u where "u = s_auth_name ?v @ zeros (33 - unat (s_auth_username_len ?v))"
  define s35 where "s35 = s3\<lparr>server_pc := MainCopied a u\<rparr>"
  define s4 where "s4 = s35\<lparr>server_pc := MainVerified a ok\<rparr>"
  have h0: "main_step env (server_pc p) p = Some (Inr s0)" using pc by (simp add: s0_def)
  have h1: "main_step env (server_pc s0) s0 = Some (Inr s1)"
    using dequeue_pc [OF p1(1), of MainTested] by (simp add: s0_def s1_def main_take_def)
  have h2: "main_step env (server_pc s1) s1 = Some (Inr s2)" using n by (simp add: s1_def s2_def)
  have h3: "main_step env (server_pc s2) s2 = Some (Inr s3)" using v(2) by (simp add: s2_def s3_def)
  have u: "main_copy ?v = Inr u" unfolding u_def by (rule main_copy_eq [OF wf])
  then have h4: "main_step env (server_pc s3) s3 = Some (Inr s35)" by (simp add: s3_def s2_def s35_def)
  have "verify_credentials (users_file s35) u (s_auth_password_hash ?v) = Inr ok"
    using ok queue_frame_server(1) [OF p1(2)]
    by (simp add: main_copy_verify [OF wf u] s35_def s3_def s2_def s1_def put_session_def s_auth_name_def)
  then have h5: "main_step env (server_pc s35) s35 = Some (Inr s4)" by (simp add: s35_def s3_def s2_def s4_def)
  have k6: "k + 6 = Suc (Suc (Suc (Suc (Suc (Suc k)))))" for k :: nat by simp
  have "main_run env (k + 6) p = main_run env k s4" for k
    unfolding k6 main_run_SucI [OF h0] main_run_SucI [OF h1] main_run_SucI [OF h2] main_run_SucI [OF h3]
      main_run_SucI [OF h4] main_run_SucI [OF h5] by (rule refl)
  moreover have "queue_like p1 s4" by (simp add: s4_def s35_def s3_def s2_def s1_def queue_like_def)
  moreover have "server_inv s4" using inv1 wf by (simp add: s4_def s35_def s3_def s2_def s1_def server_inv_put)
  moreover have "qs_streams s4 = qs_streams p" "qs_calls s4 = qs_calls p" "qs_conns s4 = qs_conns p"
      "qs_ctxs s4 = qs_ctxs p" "g_registry s4 = g_registry p"
    using queue_frame_fields [OF p1(2)] by (simp_all add: s4_def s35_def s3_def s2_def s1_def)
  moreover have "\<not> g_stop s4"
    using pc queue_frame_server(2) [OF p1(2)] by (simp add: s4_def s35_def s3_def s2_def s1_def put_session_def)
  ultimately show thesis
    using that [of s4 n] n by (simp add: s4_def s35_def s3_def s2_def s1_def)
qed

text \<open>Then the decision: two steps when the user is registered, one when not.\<close>

lemma main_run_decide:
  assumes "server_inv p" and pc: "server_pc p = MainVerified a ok" and v: "sessions p a = Some v"
  defines "accepted \<equiv> ok \<and> registry_map (g_registry p) (s_auth_name v) = None \<and> \<not> registry_full (g_registry p)"
  obtains p' v' where "\<forall>k. main_run env (k + (if accepted then 2 else 1)) p = main_run env k p'"
    and "server_pc p' = MainRegistered a accepted" and "queue_like p p'" and "sessions p' = (sessions p)(a \<mapsto> v')"
    and "s_auth_stream v' = s_auth_stream v" and "s_session_id v' = s_session_id v" and "s_auth_queued v' = s_auth_queued v"
    and "s_next v' = s_next v" and "qs_calls p' = qs_calls p" and "qs_streams p' = qs_streams p"
    and "qs_conns p' = qs_conns p" and "qs_ctxs p' = qs_ctxs p" and "g_stop p' = g_stop p"
    and "if accepted
      then registry_map (g_registry p') = (registry_map (g_registry p))(s_auth_name v \<mapsto> (s_auth_stream v, s_auth_pubkey v))
        \<and> s_state v' = SQMP_SESSION_STATE_CONN_ESTABLISHED \<and> s_name v' = s_auth_name v
      else g_registry p' = g_registry p \<and> v' = v"
proof (cases accepted)
  case True
  have wf: "wf_session v" by (rule server_inv_session [OF assms(1) v])
  obtain reg where reg: "main_add a p = Inr (0, p\<lparr>g_registry := reg\<rparr>)"
    "registry_map reg = (registry_map (g_registry p))(s_auth_name v \<mapsto> (s_auth_stream v, s_auth_pubkey v))"
    using main_add_spec [OF assms(1) v] True by (auto simp: accepted_def)
  define s1 where "s1 = p\<lparr>g_registry := reg, server_pc := MainAdded a\<rparr>"
  define s2 where "s2 = (put_session a (established_as v) s1)\<lparr>server_pc := MainRegistered a True\<rparr>"
  have h1: "main_step env (server_pc p) p = Some (Inr s1)" using True reg(1) pc by (simp add: s1_def accepted_def)
  have h2: "main_step env (server_pc s1) s1 = Some (Inr s2)"
    using main_establish_eq [OF wf, of s1 a] v by (simp add: s1_def s2_def)
  have "main_run env (k + 2) p = main_run env k s2" for k by (simp add: main_run_SucI [OF h1] main_run_SucI [OF h2])
  moreover have "g_stop s2 = g_stop p" by (simp add: s2_def s1_def put_session_def)
  ultimately show thesis
    using that [of s2 "established_as v"] True reg(2) established_as_name [OF wf]
    by (simp add: s2_def s1_def queue_like_def)
next
  case False
  have "\<not> ok \<or> main_add a p = Inr (-1, p)"
    using main_add_spec [OF assms(1) v] False by (auto simp: accepted_def)
  then have "main_step env (server_pc p) p = Some (Inr (p\<lparr>server_pc := MainRegistered a False\<rparr>))"
    using pc by auto
  then have "main_run env (k + 1) p = main_run env k (p\<lparr>server_pc := MainRegistered a False\<rparr>)" for k
    by (simp add: main_run_SucI)
  then show thesis
    using that [of "p\<lparr>server_pc := MainRegistered a False\<rparr>" v] False v by (simp add: queue_like_def fun_upd_idem)
qed

text \<open>The last step: the reply.\<close>

lemma main_run_answer:
  assumes "healthy env" and "server_pc p = MainRegistered a ok" and "sessions p a = Some v"
    and "s_auth_stream v = Some st" and "live_stream p st"
  shows "\<exists>p'. main_run env 1 p = Some (Inr p') \<and> server_pc p' = MainLoop \<and> queue_like p p' \<and> g_stop p' = g_stop p
    \<and> sessions p' = sessions p \<and> g_registry p' = g_registry p
    \<and> sent_packets p' = sent_packets p @ [(handle_of p st, auth_resp_pkt (s_session_id v) ok)]"
proof -
  let ?p1 = "after_send st (auth_resp_pkt (s_session_id v) ok) p"
  let ?p' = "?p1\<lparr>server_pc := MainLoop\<rparr>"
  have "main_run env 1 p = Some (Inr ?p')"
    using assms send_auth_resp_live [OF assms(1,5,3), of ok] by (simp add: main_run_1 del: One_nat_def)
  moreover have "queue_like p ?p'" "g_stop ?p' = g_stop p" by (simp_all add: queue_like_def) (simp add: after_send_def)
  moreover have "sent_packets ?p' = sent_packets ?p1" by (simp add: sent_packets_def)
  ultimately show ?thesis by simp
qed

text \<open>The whole iteration, whatever the dequeue operation left of the queue.\<close>

definition auth_steps :: "bool \<Rightarrow> nat" where
  "auth_steps accepted = (if accepted then 9 else 8)"

lemma main_run_auth:
  assumes "healthy env" and "server_inv p" and "server_pc p = MainLoop" and "\<not> g_stop p"
    and "sqmp_auth_queue_dequeue False p = Some (Inr (Some a, p1))" "queue_frame p p1"
    and "sessions p a = Some v" and "\<not> s_conn_closed v"
    and "verify_credentials (users_file p) (s_auth_name v) (s_auth_password_hash v) = Inr ok"
    and "s_auth_stream v = Some st" and "live_stream p st"
  defines "accepted \<equiv> ok \<and> registry_map (g_registry p) (s_auth_name v) = None \<and> \<not> registry_full (g_registry p)"
  shows "\<exists>p' v' n. main_run env (auth_steps accepted) p = Some (Inr p') \<and> server_pc p' = MainLoop \<and> \<not> g_stop p'
    \<and> queue_like p1 p' \<and> sessions p1 a = Some (v\<lparr>s_next := n\<rparr>) \<and> sessions p' = (sessions p1)(a \<mapsto> v') \<and> s_next v' = n
    \<and> \<not> s_auth_queued v'
    \<and> sent_packets p' = sent_packets p @ [(handle_of p st, auth_resp_pkt (s_session_id v) accepted)]
    \<and> (if accepted
       then registry_map (g_registry p')
              = (registry_map (g_registry p))(s_auth_name v \<mapsto> (Some st, s_auth_pubkey v))
            \<and> s_state v' = SQMP_SESSION_STATE_CONN_ESTABLISHED \<and> s_name v' = s_auth_name v
       else g_registry p' = g_registry p \<and> s_state v' = s_state v)"
proof (rule main_run_check [OF assms(2-9), of env])
  fix p4 n
  assume run: "\<forall>k. main_run env (k + 6) p = main_run env k p4" and pc: "server_pc p4 = MainVerified a ok"
    and q: "queue_like p1 p4" and inv: "server_inv p4" and n: "sessions p1 a = Some (v\<lparr>s_next := n\<rparr>)"
    and ss: "sessions p4 = (sessions p1)(a \<mapsto> v\<lparr>s_next := n, s_auth_queued := False\<rparr>)" (is "_ = _(a \<mapsto> ?v)")
    and stop: "\<not> g_stop p4"
    and frame: "g_registry p4 = g_registry p" "qs_calls p4 = qs_calls p" "qs_streams p4 = qs_streams p"
      "qs_conns p4 = qs_conns p" "qs_ctxs p4 = qs_ctxs p"
  have v4: "sessions p4 a = Some ?v" by (simp add: ss)
  have name: "s_auth_name ?v = s_auth_name v" by (simp add: s_auth_name_def)
  have acc: "(ok \<and> registry_map (g_registry p4) (s_auth_name ?v) = None \<and> \<not> registry_full (g_registry p4)) = accepted"
    by (simp add: accepted_def frame name)
  obtain p5 v' where run5: "\<forall>k. main_run env (k + (if accepted then 2 else 1)) p4 = main_run env k p5"
    and pc5: "server_pc p5 = MainRegistered a accepted" and q5: "queue_like p4 p5" and ss5: "sessions p5 = (sessions p4)(a \<mapsto> v')"
    and v': "s_auth_stream v' = s_auth_stream ?v" "s_session_id v' = s_session_id ?v" "s_auth_queued v' = s_auth_queued ?v"
      "s_next v' = s_next ?v"
    and f5: "qs_calls p5 = qs_calls p4" "qs_streams p5 = qs_streams p4" "qs_conns p5 = qs_conns p4" "qs_ctxs p5 = qs_ctxs p4"
      "g_stop p5 = g_stop p4"
    and res: "if accepted
      then registry_map (g_registry p5) = (registry_map (g_registry p4))(s_auth_name ?v \<mapsto> (s_auth_stream ?v, s_auth_pubkey ?v))
        \<and> s_state v' = SQMP_SESSION_STATE_CONN_ESTABLISHED \<and> s_name v' = s_auth_name ?v
      else g_registry p5 = g_registry p4 \<and> v' = ?v"
    using main_run_decide [OF inv pc v4, of env, unfolded acc] by metis
  have l5: "live_stream p5 st" "handle_of p5 st = handle_of p st" "sent_packets p5 = sent_packets p"
    using assms(11) live_stream_cong [of p5 p] handle_of_cong [of p5 p] sent_packets_cong [of p5 p] by (simp_all add: f5 frame)
  have st: "sessions p5 a = Some v'" "s_auth_stream v' = Some st" using v'(1) assms(10) by (simp_all add: ss5)
  from main_run_answer [OF assms(1) pc5 st l5(1)] obtain p' where p':
      "main_run env 1 p5 = Some (Inr p')" "server_pc p' = MainLoop" "queue_like p5 p'" "g_stop p' = g_stop p5"
      "sessions p' = sessions p5" "g_registry p' = g_registry p5"
      "sent_packets p' = sent_packets p5 @ [(handle_of p5 st, auth_resp_pkt (s_session_id v') accepted)]" by blast
  have steps: "auth_steps accepted = (1 + (if accepted then 2 else 1)) + 6" by (simp add: auth_steps_def)
  have "main_run env (auth_steps accepted) p = Some (Inr p')"
    unfolding steps run [rule_format] run5 [rule_format] by (rule p'(1))
  moreover have "queue_like p1 p'" using q q5 p'(3) by (simp add: queue_like_def)
  moreover have "sessions p' = (sessions p1)(a \<mapsto> v')" by (simp add: p'(5) ss5 ss)
  ultimately show ?thesis
    using res n p' l5 v' f5(5) stop assms(10)
    by (intro exI [of _ p'] exI [of _ v'] exI [of _ n]) (simp add: frame name split: if_splits)
qed

text \<open>C6: the server authenticates one session at a time, completely. From its loop, with sessions
  queued and no other thread interfering, nine steps of the main thread (eight when the login is
  refused) take the oldest session, check its credentials, and answer it. The user is registered under the requested name, with the
  session's stream and key, and the session is established, exactly when the credentials are right,
  the name is not registered and the registry has room; the reply says which. Otherwise the
  registry and the session's state stay as they were. The rest of the queue is untouched.\<close>

theorem main_loop_authenticates:
  assumes "healthy env" and "server_inv p" and "server_pc p = MainLoop" and "\<not> g_stop p"
    and "queue_inv p (a # as)" and "sessions p a = Some v" and "\<not> s_conn_closed v"
    and "s_auth_stream v = Some st" and "live_stream p st"
    and "verify_credentials (users_file p) (s_auth_name v) (s_auth_password_hash v) = Inr ok"
  defines "accepted \<equiv> ok \<and> registry_map (g_registry p) (s_auth_name v) = None \<and> \<not> registry_full (g_registry p)"
  shows "\<exists>p' v'. main_run env (auth_steps accepted) p = Some (Inr p') \<and> server_pc p' = MainLoop \<and> queue_inv p' as
    \<and> sessions p' a = Some v' \<and> \<not> s_auth_queued v'
    \<and> sent_packets p' = sent_packets p @ [(handle_of p st, auth_resp_pkt (s_session_id v) accepted)]
    \<and> (if accepted
       then registry_map (g_registry p')
              = (registry_map (g_registry p))(s_auth_name v \<mapsto> (Some st, s_auth_pubkey v))
            \<and> s_state v' = SQMP_SESSION_STATE_CONN_ESTABLISHED \<and> s_name v' = s_auth_name v
       else g_registry p' = g_registry p \<and> s_state v' = s_state v)"
proof -
  obtain p1 where p1: "sqmp_auth_queue_dequeue False p = Some (Inr (Some a, p1))" "queue_inv p1 as" "queue_frame p p1"
    using dequeue_spec [OF assms(5)] by blast
  have a: "a \<notin> set as" using assms(5) by (simp add: queue_inv_def queue_repr_def)
  obtain p' v' n where run: "main_run env (auth_steps accepted) p = Some (Inr p')" "server_pc p' = MainLoop" "queue_like p1 p'"
      "sessions p1 a = Some (v\<lparr>s_next := n\<rparr>)" "sessions p' = (sessions p1)(a \<mapsto> v')" "\<not> s_auth_queued v'"
      "sent_packets p' = sent_packets p @ [(handle_of p st, auth_resp_pkt (s_session_id v) accepted)]"
    and res: "if accepted
       then registry_map (g_registry p')
              = (registry_map (g_registry p))(s_auth_name v \<mapsto> (Some st, s_auth_pubkey v))
            \<and> s_state v' = SQMP_SESSION_STATE_CONN_ESTABLISHED \<and> s_name v' = s_auth_name v
       else g_registry p' = g_registry p \<and> s_state v' = s_state v"
    using main_run_auth [OF assms(1-4) p1(1,3) assms(6,7,10,8,9), folded accepted_def] by blast
  have "queue_inv p' as" using p1(2) a run(3,5) by (simp add: queue_inv_def queue_repr_def queue_like_def)
  then show ?thesis using run res by (intro exI [of _ p'] exI [of _ v']) simp
qed

text \<open>A server with one user \<^verbatim>\<open>ab\<close> in its file whose session (at 4, on stream 3) waits in the queue.\<close>

definition demo_users :: bytes where
  "demo_users = user_line [97, 98] (replicate 32 7)"

definition waiting_session :: sqmp_session where
  "waiting_session = new_session\<lparr>s_state := SQMP_SESSION_STATE_AUTH, s_session_id := 6, s_auth_username_len := 2,
     s_auth_username := [97, 98] @ zeros 30, s_auth_password_hash := replicate 32 7, s_auth_pubkey := replicate 32 9,
     s_auth_stream := Some 3, s_auth_queued := True\<rparr>"

definition server_demo :: server_state where
  "server_demo = server_start\<lparr>qs_conns := qs_conns (proto_demo SQMP_SESSION_STATE_AUTH),
     qs_streams := qs_streams (proto_demo SQMP_SESSION_STATE_AUTH), qs_allocs := 10,
     sessions := [4 \<mapsto> waiting_session], g_auth_queue_head := Some 4, g_auth_queue_tail := Some 4,
     g_auth_queue_sem := 1, users_file := Some demo_users\<rparr>"

lemma demo_users_table: "users_table demo_users = [([97, 98], concat (map print_02x (replicate 32 7)) @ [NL])]"
proof -
  have "users_table ([] @ user_line [97, 98] (replicate 32 7)) = users_table [] @ [([97, 98], concat (map print_02x (replicate 32 7)) @ [NL])]"
    by (rule users_table_append_user) (simp_all add: plain_username_def complete_lines_def)
  then show ?thesis by (simp add: demo_users_def users_table_unfold [of "[]"] fgets_def)
qed

lemma demo_verify: "length h = 32 \<Longrightarrow> verify_credentials (Some demo_users) [97, 98] h = Inr (h = replicate 32 7)"
  using check_printed_hash [of "replicate 32 7" h]
  by (simp add: verify_credentials_def verify_loop_table demo_users_table)

lemma waiting_session_simps [simp]:
  "wf_session waiting_session" "s_auth_name waiting_session = [97, 98]" "s_state waiting_session = SQMP_SESSION_STATE_AUTH"
  "s_auth_password_hash waiting_session = replicate 32 7" "s_auth_stream waiting_session = Some 3"
  "s_auth_pubkey waiting_session = replicate 32 9" "s_session_id waiting_session = 6"
  "s_next waiting_session = None" "\<not> s_conn_closed waiting_session" "s_auth_queued waiting_session"
  by (simp_all add: waiting_session_def wf_session_def new_session_def s_auth_name_def)

lemma server_demo_simps [simp]:
  "sessions server_demo = [4 \<mapsto> waiting_session]" "server_inv server_demo" "queue_inv server_demo [4]"
  "live_stream server_demo 3" "handle_of server_demo 3 = 9" "sent_packets server_demo = []"
  "server_pc server_demo = MainLoop" "\<not> g_stop server_demo" "users_file server_demo = Some demo_users"
  "g_registry server_demo = g_registry_init"
  by (simp_all add: server_demo_def server_start_def server_inv_def wf_registry_init live_stream_def stream_chain_def
      proto_demo_def handle_of_def sent_packets_def List.map_filter_def queue_inv_def queue_repr_def)

theorem main_loop_authenticates_witness:
  "\<exists>p'. main_run env_ok 9 server_demo = Some (Inr p') \<and> server_pc p' = MainLoop
     \<and> sent_packets p' = [(9, auth_resp_pkt 6 True)]
     \<and> registry_map (g_registry p') = [[97, 98] \<mapsto> (Some 3, replicate 32 9)]"
  using main_loop_authenticates [of env_ok server_demo 4 "[]" waiting_session 3 True] demo_verify [of "replicate 32 7"]
  by (auto simp: registry_map_init not_full_init auth_steps_def)

section \<open>Interference\<close>

text \<open>C26: the credential check and the registration are not atomic. While the main thread has
  checked a session's credentials and has not yet registered the user, a second \<^verbatim>\<open>AUTH_REQ\<close> on the
  same session overwrites them; the main thread then registers whatever name, key and stream the
  second request carries, although nobody checked its password hash.\<close>

theorem unchecked_name_registered:
  fixes p :: server_state and r :: bytes
  assumes "server_inv p" and "server_pc p = MainVerified a True" and "sessions p a = Some v"
    and "s_state v = SQMP_SESSION_STATE_AUTH" and "queue_inv p as" and "a \<notin> set as"
    and "sqmp_stream_get_user_data st p = Inr (Some a)"
    and "wf_pkt h" and "pkt_msg_type h = msg_code SQMP_MSG_TYPE_AUTH_REQ" and "good_auth_req m"
    and "registry_map (g_registry p) (auth_req_name m) = None" and "\<not> registry_full (g_registry p)"
    and "12 \<le> n"
  shows "\<exists>p1 p2 v2. server_on_stream_recv env st (enc_pkt h @ enc_auth_req m @ r) n p = Inr p1
    \<and> main_run env 2 p1 = Some (Inr p2)
    \<and> registry_map (g_registry p2) = (registry_map (g_registry p))(auth_req_name m \<mapsto> (Some st, auth_req_public_key m))
    \<and> sessions p2 a = Some v2 \<and> s_state v2 = SQMP_SESSION_STATE_CONN_ESTABLISHED \<and> s_name v2 = auth_req_name m"
proof -
  have wf: "wf_session v" using assms(1,3) by (rule server_inv_session)
  obtain p1 k where p1: "sqmp_process_auth_req env st (Some a) (enc_pkt h @ enc_auth_req m @ r) p = Inr p1"
    "queue_frame (put_session a (stored_auth st m v) p) p1" "sessions p1 a = Some (stored_auth st m v\<lparr>s_next := k\<rparr>)"
    using auth_req_queued [OF assms(3) wf assms(8,10,4-6)] by metis
  have recv: "server_on_stream_recv env st (enc_pkt h @ enc_auth_req m @ r) n p = Inr p1"
    using assms(7-9,13) p1(1) by (simp add: server_on_stream_recv_def pkt_reads)
  then have inv1: "server_inv p1" using server_on_stream_recv_inv assms(1) by blast
  have pc: "server_pc p1 = MainVerified a True" and reg: "g_registry p1 = g_registry p"
    using queue_frame_server(3) [OF p1(2)] queue_frame_fields(1) [OF p1(2)] assms(2) by (simp_all add: put_session_def)
  let ?w = "stored_auth st m v\<lparr>s_next := k\<rparr>"
  have w: "s_auth_name ?w = auth_req_name m" "s_auth_stream ?w = Some st" "s_auth_pubkey ?w = auth_req_public_key m"
    using stored_auth_simps(2) [OF wf assms(10), of st]
    by (simp_all add: s_auth_name_def) (simp_all add: stored_auth_def Let_def)
  have v1: "sessions p1 a = Some ?w" "wf_session ?w" using p1(3) inv1 by (auto simp: server_inv_def)
  obtain rg where rg: "main_add a p1 = Inr (0, p1\<lparr>g_registry := rg\<rparr>)"
    "registry_map rg = (registry_map (g_registry p1))(auth_req_name m \<mapsto> (Some st, auth_req_public_key m))"
    using main_add_spec [OF inv1 v1(1)] assms(11,12) by (auto simp: w reg)
  define s1 where "s1 = p1\<lparr>g_registry := rg, server_pc := MainAdded a\<rparr>"
  define s2 where "s2 = (put_session a (established_as ?w) s1)\<lparr>server_pc := MainRegistered a True\<rparr>"
  have h1: "main_step env (server_pc p1) p1 = Some (Inr s1)" using rg(1) pc by (simp add: s1_def)
  have h2: "main_step env (server_pc s1) s1 = Some (Inr s2)"
    using main_establish_eq [OF v1(2), of s1 a] v1(1) by (simp add: s1_def s2_def)
  have "main_run env 2 p1 = Some (Inr s2)" by (simp add: numeral_2_eq_2 main_run_SucI [OF h1] main_run_SucI [OF h2])
  moreover have "registry_map (g_registry s2) = (registry_map (g_registry p))(auth_req_name m \<mapsto> (Some st, auth_req_public_key m))"
    using rg(2) reg by (simp add: s2_def s1_def)
  moreover have "sessions s2 a = Some (established_as ?w)" by (simp add: s2_def)
  ultimately show ?thesis
    using recv established_as_name [OF v1(2)] w(1)
    by (intro exI [of _ p1] exI [of _ s2] exI [of _ "established_as ?w"]) simp
qed

definition race_demo :: server_state where
  "race_demo = server_demo\<lparr>server_pc := MainVerified 4 True, g_auth_queue_head := None, g_auth_queue_tail := None,
     g_auth_queue_sem := 0\<rparr>"

theorem unchecked_name_registered_witness:
  "verify_credentials (Some demo_users) [99, 100] (replicate 32 7) = Inr False
   \<and> (\<exists>p1 p2. server_on_stream_recv env_ok 3 (enc_pkt (make_pkt SQMP_MSG_TYPE_AUTH_REQ 6)
          @ enc_auth_req demo_auth_req @ [0]) 123 race_demo = Inr p1
     \<and> main_run env_ok 2 p1 = Some (Inr p2)
     \<and> registry_map (g_registry p2) = [[99, 100] \<mapsto> (Some 3, replicate 32 9)])"
proof -
  have inv: "server_inv race_demo" "queue_inv race_demo []" "sessions race_demo 4 = Some waiting_session"
    "g_registry race_demo = g_registry_init" "server_pc race_demo = MainVerified 4 True"
    by (simp_all add: race_demo_def)
  have "sqmp_stream_get_user_data 3 race_demo = Inr (Some 4)"
    by (simp add: race_demo_def server_demo_def server_start_def sqmp_stream_get_user_data_def proto_demo_def)
  moreover have "good_auth_req demo_auth_req" "auth_req_name demo_auth_req = [99, 100]"
    "auth_req_public_key demo_auth_req = replicate 32 9"
    by (simp_all add: demo_auth_req_def good_auth_req_def wf_auth_req_def auth_req_name_def)
  ultimately have "\<exists>p1 p2. server_on_stream_recv env_ok 3 (enc_pkt (make_pkt SQMP_MSG_TYPE_AUTH_REQ 6)
          @ enc_auth_req demo_auth_req @ [0]) 123 race_demo = Inr p1
     \<and> main_run env_ok 2 p1 = Some (Inr p2)
     \<and> registry_map (g_registry p2) = [[99, 100] \<mapsto> (Some 3, replicate 32 9)]"
    using unchecked_name_registered [OF inv(1,5,3) _ inv(2), of 3 "make_pkt SQMP_MSG_TYPE_AUTH_REQ 6" demo_auth_req 123
        env_ok "[0]"]
    by (fastforce simp: inv registry_map_init not_full_init)
  moreover have "verify_credentials (Some demo_users) [99, 100] (replicate 32 7) = Inr False"
    by (simp add: verify_credentials_def verify_loop_table demo_users_table)
  ultimately show ?thesis by blast
qed

lemma main_run_add:
  "main_run env n p = Some (Inr q) \<Longrightarrow> main_run env (n + m) p = main_run env m q"
  by (induction n arbitrary: p) (auto simp: main_run.simps(2) split: option.splits sum.splits)

text \<open>C27: one client can stop the authentication of everybody. If a session whose \<^verbatim>\<open>AUTH_REQ\<close> waits
  at the head of the queue, with others behind it, sends a second one, the queue is cut. The main
  thread serves that session, then finds the queue empty although the semaphore counts further
  sessions, takes the \<^verbatim>\<open>NULL\<close> for an interruption and leaves its loop without a signal to stop, so
  that the waiting sessions are never answered.\<close>

theorem repeated_auth_req_stops_server:
  fixes p :: server_state and r :: bytes
  assumes "healthy env" and "server_inv p" and "server_pc p = MainLoop" and "\<not> g_stop p"
    and "queue_inv p (a # b # bs)" and "sessions p a = Some v" and "s_state v = SQMP_SESSION_STATE_AUTH"
    and "\<not> s_conn_closed v" and "sqmp_stream_get_user_data st p = Inr (Some a)" and "live_stream p st"
    and "wf_pkt h" and "pkt_msg_type h = msg_code SQMP_MSG_TYPE_AUTH_REQ" and "good_auth_req m" and "12 \<le> n"
    and "verify_credentials (users_file p) (auth_req_name m) (auth_req_password_hash m) = Inr ok"
  shows "\<exists>p1 p2. server_on_stream_recv env st (enc_pkt h @ enc_auth_req m @ r) n p = Inr p1
    \<and> (\<exists>n \<le> 11. main_run env n p1 = Some (Inr p2)) \<and> server_pc p2 = MainExit \<and> \<not> g_stop p2
    \<and> g_auth_queue_sem p2 = Suc (length bs)"
proof -
  have wf: "wf_session v" using assms(2,6) by (rule server_inv_session)
  let ?w = "stored_auth st m v"
  let ?q = "put_session a ?w p"
  have "queue_inv ?q (a # b # bs)"
    using assms(5) queue_inv_put_same_next [OF assms(6), of ?w] by (simp add: stored_auth_def Let_def)
  from double_enqueue_cut [OF this] obtain p1 p1' where enq: "auth_queue_enqueue a ?q = Inr p1" "queue_frame ?q p1"
    and deq: "sqmp_auth_queue_dequeue False p1 = Some (Inr (Some a, p1'))" "queue_frame p1 p1'"
    and cut: "g_auth_queue_head p1' = None" "g_auth_queue_sem p1' = Suc (Suc (length bs))" by blast
  have recv: "server_on_stream_recv env st (enc_pkt h @ enc_auth_req m @ r) n p = Inr p1"
    using assms(9,11,12,14) enq(1) auth_req_stored [OF assms(6) wf assms(11,13,7)]
    by (simp add: server_on_stream_recv_def pkt_reads)
  then have inv1: "server_inv p1" using server_on_stream_recv_inv assms(2) by blast
  have pc: "server_pc p1 = MainLoop" "\<not> g_stop p1" and users: "users_file p1 = users_file p"
    using queue_frame_server [OF enq(2)] assms(3,4) by (simp_all add: put_session_def)
  obtain k where k: "sessions p1 a = Some (?w\<lparr>s_next := k\<rparr>)" using queue_frame_session [OF enq(2), of a ?w] by auto
  have w: "s_auth_name (?w\<lparr>s_next := k\<rparr>) = auth_req_name m" "s_auth_password_hash (?w\<lparr>s_next := k\<rparr>) = auth_req_password_hash m"
    "s_auth_stream (?w\<lparr>s_next := k\<rparr>) = Some st" "\<not> s_conn_closed (?w\<lparr>s_next := k\<rparr>)"
    using stored_auth_simps(2) [OF wf assms(13), of st] assms(8)
    by (simp_all add: s_auth_name_def) (simp_all add: stored_auth_def Let_def)
  have live: "live_stream p1 st"
    using assms(10) queue_frame_fields [OF enq(2)] live_stream_cong [of p1 p] by simp
  obtain k' p2 where p2: "main_run env k' p1 = Some (Inr p2)" "k' \<le> 9" "server_pc p2 = MainLoop" "\<not> g_stop p2" "queue_like p1' p2"
  proof -
    have "auth_steps b \<le> 9" for b by (simp add: auth_steps_def)
    then show thesis
      using main_run_auth [OF assms(1) inv1 pc deq k w(4) _ w(3) live] assms(15) that by (auto simp: w users)
  qed
  let ?p3 = "p2\<lparr>g_auth_queue_sem := Suc (length bs), server_pc := MainExit\<rparr>"
  have "main_step env MainTested (p2\<lparr>server_pc := MainTested\<rparr>) = Some (Inr ?p3)"
    using p2(5) cut by (simp add: sqmp_auth_queue_dequeue_def auth_queue_take_def queue_like_def main_take_def)
  then have "main_run env (Suc (Suc 0)) p2 = Some (Inr ?p3)" using p2(3,4) by (simp add: main_run_SucI)
  then have "main_run env (k' + 2) p1 = Some (Inr ?p3)"
    unfolding main_run_add [OF p2(1)] by (simp add: numeral_2_eq_2)
  moreover have "k' + 2 \<le> 11" using p2(2) by simp
  ultimately have "\<exists>n \<le> 11. main_run env n p1 = Some (Inr ?p3)" by blast
  then show ?thesis using recv p2(4) by (intro exI [of _ p1] exI [of _ ?p3]) (simp del: main_run.simps)
qed

definition two_waiting_demo :: server_state where
  "two_waiting_demo = server_demo\<lparr>sessions := [4 \<mapsto> waiting_session\<lparr>s_next := Some 5\<rparr>, 5 \<mapsto> waiting_session],
     g_auth_queue_tail := Some 5, g_auth_queue_sem := 2\<rparr>"

theorem repeated_auth_req_stops_server_witness:
  "\<exists>p1 p2. server_on_stream_recv env_ok 3 (enc_pkt (make_pkt SQMP_MSG_TYPE_AUTH_REQ 6)
        @ enc_auth_req demo_auth_req @ [0]) 123 two_waiting_demo = Inr p1
    \<and> (\<exists>n \<le> 11. main_run env_ok n p1 = Some (Inr p2)) \<and> server_pc p2 = MainExit \<and> \<not> g_stop p2"
proof -
  have s: "server_inv two_waiting_demo" "server_pc two_waiting_demo = MainLoop" "\<not> g_stop two_waiting_demo"
    "queue_inv two_waiting_demo [4, 5]" "sessions two_waiting_demo 4 = Some (waiting_session\<lparr>s_next := Some 5\<rparr>)"
    "live_stream two_waiting_demo 3" "sqmp_stream_get_user_data 3 two_waiting_demo = Inr (Some 4)"
    "users_file two_waiting_demo = Some demo_users"
    using live_stream_cong [of two_waiting_demo server_demo]
    by (simp_all add: two_waiting_demo_def server_inv_def queue_inv_def queue_repr_def)
       (simp_all add: server_demo_def server_start_def wf_registry_init sqmp_stream_get_user_data_def proto_demo_def
         waiting_session_def wf_session_def new_session_def)
  have "good_auth_req demo_auth_req" "auth_req_name demo_auth_req = [99, 100]"
    by (simp_all add: demo_auth_req_def good_auth_req_def wf_auth_req_def auth_req_name_def)
  moreover have "verify_credentials (Some demo_users) [99, 100] (auth_req_password_hash demo_auth_req) = Inr False"
    by (simp add: verify_credentials_def verify_loop_table demo_users_table)
  ultimately show ?thesis
    using repeated_auth_req_stops_server [OF healthy_env_ok s(1-5), of 3 "make_pkt SQMP_MSG_TYPE_AUTH_REQ 6" demo_auth_req 123
        False "[0]"] s(6-8) by (simp del: main_run.simps) blast
qed

text \<open>C28: a signal can be lost. One that arrives before the test of \<^verbatim>\<open>g_stop\<close> or while \<^verbatim>\<open>sem_wait\<close>
  waits ends the loop. One that arrives in between, with nobody queued, does not: the main thread
  goes on to wait with \<^verbatim>\<open>g_stop\<close> set and can make no further step until the semaphore counts
  a session or a second signal comes.\<close>

theorem signal_before_wait_is_lost:
  fixes p :: server_state
  assumes "queue_inv p []"
  shows "(server_pc p = MainLoop \<longrightarrow> (\<exists>q. server_signal p = Inr q \<and>
        (\<exists>r. main_step env (server_pc q) q = Some (Inr r) \<and> server_pc r = MainExit)))
    \<and> (server_pc p = MainWaiting \<longrightarrow> (\<exists>q. server_signal p = Inr q \<and> server_pc q = MainExit \<and> g_stop q))
    \<and> (server_pc p = MainTested \<longrightarrow> (\<exists>q r. server_signal p = Inr q
        \<and> main_step env (server_pc q) q = Some (Inr r) \<and> server_pc r = MainWaiting \<and> g_stop r
        \<and> (\<forall>r'. server_pc r' = server_pc r \<longrightarrow>
             (main_step env (server_pc r') r' = None \<longleftrightarrow> g_auth_queue_sem r' = 0))
        \<and> main_step env (server_pc r) r = None
        \<and> (\<exists>r2. server_signal r = Inr r2 \<and> server_pc r2 = MainExit)))"
proof -
  have sem: "g_auth_queue_sem p = 0" using assms by (simp add: queue_inv_def)
  have wait: "sqmp_auth_queue_dequeue False r = None \<longleftrightarrow> g_auth_queue_sem r = 0" for r :: server_state
    by (simp add: sqmp_auth_queue_dequeue_def)
  have [simp]: "g_auth_queue_sem (sig_handler p) = 0" "server_pc (sig_handler p) = server_pc p" "g_stop (sig_handler p)"
    using sem by (simp_all add: sig_handler_def)
  show ?thesis
    by (simp add: server_signal_def dequeue_interrupted main_take_def wait
        wait [of "sig_handler p", THEN iffD2])
qed

theorem signal_before_wait_is_lost_witness:
  "\<exists>q r. server_signal (server_start\<lparr>server_pc := MainTested\<rparr>) = Inr q
     \<and> main_step env_ok (server_pc q) q = Some (Inr r) \<and> g_stop r \<and> main_step env_ok (server_pc r) r = None"
proof -
  have "queue_inv (server_start\<lparr>server_pc := MainTested\<rparr>) []"
    by (simp add: server_start_def queue_inv_def queue_repr_def)
  from signal_before_wait_is_lost [OF this, of env_ok] show ?thesis by auto
qed

text \<open>C30: a name with a \<^verbatim>\<open>NUL\<close> in it is checked as the part before the \<^verbatim>\<open>NUL\<close> and registered
  whole. A session that asks for the name \<open>n\<close>, a \<^verbatim>\<open>NUL\<close> and a suffix passes the check exactly when
  one that asks for \<open>n\<close> with the same password hash does; after the check the registry maps the
  whole name, \<^verbatim>\<open>NUL\<close> and suffix included, to the session's stream and key, also when \<open>n\<close> itself
  is registered already, and the session is established under the whole name. With one account's
  password a client can be logged in many times, under names that are nobody's.\<close>

theorem nul_name_checked_as_prefix:
  fixes p :: server_state
  assumes "server_inv p" and "sessions p a = Some w" and "s_auth_name w = n @ 0 # suffix" and "main_copy w = Inr u"
    and "registry_map (g_registry p) (n @ 0 # suffix) = None" and "\<not> registry_full (g_registry p)"
  shows "verify_credentials (users_file p) u (s_auth_password_hash w) = verify_credentials (users_file p) n (s_auth_password_hash w)
    \<and> (\<exists>p' w'. main_run env 2 (p\<lparr>server_pc := MainVerified a True\<rparr>) = Some (Inr p')
      \<and> registry_map (g_registry p') = (registry_map (g_registry p))(n @ 0 # suffix \<mapsto> (s_auth_stream w, s_auth_pubkey w))
      \<and> sessions p' a = Some w' \<and> s_state w' = SQMP_SESSION_STATE_CONN_ESTABLISHED \<and> s_name w' = n @ 0 # suffix)"
proof
  have wf: "wf_session w" using server_inv_session [OF assms(1,2)] .
  show "verify_credentials (users_file p) u (s_auth_password_hash w) = verify_credentials (users_file p) n (s_auth_password_hash w)"
    unfolding main_copy_verify [OF wf assms(4)] assms(3)
    by (simp add: verify_credentials_def cstr_prefix split: option.split)
  let ?q = "p\<lparr>server_pc := MainVerified a True\<rparr>"
  have q: "server_inv ?q" "server_pc ?q = MainVerified a True" "sessions ?q a = Some w" using assms(1,2) by simp_all
  have acc: "(True \<and> registry_map (g_registry ?q) (s_auth_name w) = None \<and> \<not> registry_full (g_registry ?q)) = True"
    using assms(3,5,6) by simp
  obtain p' w' where run: "\<forall>k. main_run env (k + 2) ?q = main_run env k p'" and "sessions p' = (sessions ?q)(a \<mapsto> w')"
    "registry_map (g_registry p') = (registry_map (g_registry ?q))(s_auth_name w \<mapsto> (s_auth_stream w, s_auth_pubkey w))"
    "s_state w' = SQMP_SESSION_STATE_CONN_ESTABLISHED" "s_name w' = s_auth_name w"
    by (rule main_run_decide [OF q, of env, unfolded acc if_True]) blast
  moreover have "main_run env 2 ?q = Some (Inr p')" using run [rule_format, of 0] unfolding add_0 main_run.simps(1) .
  ultimately show "\<exists>p' w'. main_run env 2 ?q = Some (Inr p')
      \<and> registry_map (g_registry p') = (registry_map (g_registry p))(n @ 0 # suffix \<mapsto> (s_auth_stream w, s_auth_pubkey w))
      \<and> sessions p' a = Some w' \<and> s_state w' = SQMP_SESSION_STATE_CONN_ESTABLISHED \<and> s_name w' = n @ 0 # suffix"
    using assms(3) by (intro exI [of _ p'] exI [of _ w']) (simp del: main_run.simps)
qed

definition nul_demo :: server_state where
  "nul_demo = server_demo\<lparr>sessions := [4 \<mapsto> waiting_session\<lparr>s_auth_username_len := 4,
     s_auth_username := [97, 98, 0, 120] @ zeros 28\<rparr>]\<rparr>"

theorem nul_name_checked_as_prefix_witness:
  "verify_credentials (Some demo_users) ([97, 98, 0, 120] @ zeros 29) (replicate 32 7) = Inr True
   \<and> (\<exists>p'. main_run env_ok 2 (nul_demo\<lparr>server_pc := MainVerified 4 True\<rparr>) = Some (Inr p')
      \<and> registry_map (g_registry p') = [[97, 98, 0, 120] \<mapsto> (Some 3, replicate 32 9)])"
proof -
  let ?w = "waiting_session\<lparr>s_auth_username_len := 4, s_auth_username := [97, 98, 0, 120] @ zeros 28\<rparr>"
  have w: "wf_session ?w" "s_auth_name ?w = [97, 98] @ 0 # [120]" "s_auth_password_hash ?w = replicate 32 7"
    "s_auth_stream ?w = Some 3" "s_auth_pubkey ?w = replicate 32 9"
    by (simp_all add: waiting_session_def wf_session_def new_session_def s_auth_name_def)
  have copy: "main_copy ?w = Inr ([97, 98, 0, 120] @ zeros 29)"
    using main_copy_eq [OF w(1)] w(2) by simp
  have p: "sessions nul_demo 4 = Some ?w" "g_registry nul_demo = g_registry_init" "users_file nul_demo = Some demo_users"
    by (simp_all add: nul_demo_def)
  have inv: "server_inv nul_demo"
    using w(1) by (simp add: server_inv_def nul_demo_def wf_registry_init)
  show ?thesis
    using nul_name_checked_as_prefix [OF inv p(1) w(2) copy, of env_ok] demo_verify [of "replicate 32 7"] w(3-5)
    unfolding p(2,3) by (fastforce simp: registry_map_init not_full_init)
qed

section \<open>Sessions end\<close>

text \<open>The main thread is busy with session \<open>a\<close>: it has taken it from the queue, and its next one or two
  steps read it.\<close>

fun main_holds :: "server_pc \<Rightarrow> addr \<Rightarrow> bool" where
  "main_holds (MainDequeued b) a \<longleftrightarrow> b = a"
| "main_holds (MainUnqueued b) a \<longleftrightarrow> b = a"
| "main_holds (MainAlive b) a \<longleftrightarrow> b = a"
| "main_holds (MainCopied b _) a \<longleftrightarrow> b = a"
| "main_holds (MainVerified b _) a \<longleftrightarrow> b = a"
| "main_holds (MainAdded b) a \<longleftrightarrow> b = a"
| "main_holds (MainRegistered b _) a \<longleftrightarrow> b = a"
| "main_holds _ a \<longleftrightarrow> False"

lemma freed_session_faults:
  assumes "main_holds (server_pc p) a" and "sessions p a = None"
  shows "main_run env 2 p = Some (Inl UseAfterFree)"
  using assms
  by (cases "(server_pc p, a)" rule: main_holds.cases)
     (simp_all add: numeral_2_eq_2 main_run.simps(2) get_session_def main_add_def main_establish_def)

lemma closed_session_freed:
  assumes "server_pc q = MainDequeued a" and "sessions q a = Some w" and "s_conn_closed w"
  shows "main_run env 2 q = Some (Inr (q\<lparr>sessions := (sessions q)(a := None), server_pc := MainLoop\<rparr>))"
  using assms by (simp add: numeral_2_eq_2 main_run.simps(2) put_session_def)

lemma closed_head_freed:
  fixes p :: server_state
  assumes "sessions p a = Some v" and "server_pc p = MainLoop" and "\<not> g_stop p" and "queue_inv p (a # as)"
  shows "\<exists>p''. main_run env 4 (put_session a (v\<lparr>s_conn_closed := True\<rparr>) p) = Some (Inr p'') \<and> server_pc p'' = MainLoop
    \<and> sessions p'' a = None \<and> queue_inv p'' as \<and> g_registry p'' = g_registry p \<and> sent_packets p'' = sent_packets p"
proof -
  let ?v = "v\<lparr>s_conn_closed := True\<rparr>"
  let ?p' = "put_session a ?v p"
  have "queue_inv ?p' (a # as)" using assms(4) queue_inv_put_same_next [OF assms(1), of ?v] by simp
  then obtain p1 where p1: "sqmp_auth_queue_dequeue False ?p' = Some (Inr (Some a, p1))" "queue_inv p1 as"
    "queue_frame ?p' p1" using dequeue_spec by blast
  obtain k where k: "sessions p1 a = Some (?v\<lparr>s_next := k\<rparr>)" using queue_frame_session [OF p1(3), of a ?v] by auto
  let ?s0 = "?p'\<lparr>server_pc := MainTested\<rparr>"
  let ?s1 = "p1\<lparr>server_pc := MainDequeued a\<rparr>"
  let ?s2 = "?s1\<lparr>sessions := (sessions p1)(a := None), server_pc := MainLoop\<rparr>"
  have h0: "main_step env (server_pc ?p') ?p' = Some (Inr ?s0)" using assms by (simp add: put_session_def)
  have h1: "main_step env (server_pc ?s0) ?s0 = Some (Inr ?s1)"
    using dequeue_pc [OF p1(1), of MainTested] by (simp add: main_take_def)
  have "main_run env 2 ?s1 = Some (Inr ?s2)" using closed_session_freed [of ?s1 a] k by simp
  then have "main_run env (Suc (Suc 2)) ?p' = Some (Inr ?s2)"
    unfolding main_run_SucI [OF h0] main_run_SucI [OF h1] .
  then have run: "main_run env 4 ?p' = Some (Inr ?s2)" by (simp add: eval_nat_numeral)
  have a: "a \<notin> set as" using assms(4) by (simp add: queue_inv_def queue_repr_def)
  have "linked ((sessions p1)(a := None)) q as \<longleftrightarrow> linked (sessions p1) q as" for q
    using a by (intro linked_cong) auto
  then have "queue_inv ?s2 as" using p1(2) by (simp add: queue_inv_def queue_repr_def)
  then show ?thesis
    using run queue_frame_fields [OF p1(3)] by (intro exI [of _ ?s2]) (simp add: sent_packets_def)
qed

text \<open>C20: what becomes of a session whose connection ends. When it is not queued, the callback
  frees it and, if it is established, removes its user from the registry; but if the main thread
  is busy with it, having just cleared its \<^verbatim>\<open>auth_queued\<close>, that thread reads the freed
  memory within two steps. When it is queued the callback only marks it; whenever the main thread takes a
  marked session from the queue, two steps free it, without a check of its credentials or an
  answer, and the registry is left as it is (so a session that is established by then
  leaves its user registered with a stream that is gone). At the head of the queue that is
  four steps after the loop's start.\<close>

theorem disconnect_frees_session:
  fixes p :: server_state
  assumes "server_inv p" and "sqmp_conn_get_user_data c p = Inr (Some a)" and "sessions p a = Some v"
  shows "(\<exists>p'. server_on_disconnected c p = Inr p' \<and> server_pc p' = server_pc p
      \<and> (if \<not> s_auth_queued v then
          sessions p' = (sessions p)(a := None)
          \<and> registry_map (g_registry p') = (if s_state v = SQMP_SESSION_STATE_CONN_ESTABLISHED
             then (registry_map (g_registry p))(s_name v := None) else registry_map (g_registry p))
          \<and> (main_holds (server_pc p) a \<longrightarrow> main_run env 2 p' = Some (Inl UseAfterFree))
        else
          sessions p' = (sessions p)(a \<mapsto> v\<lparr>s_conn_closed := True\<rparr>) \<and> g_registry p' = g_registry p
          \<and> (server_pc p = MainLoop \<longrightarrow> \<not> g_stop p \<longrightarrow> queue_inv p (a # as) \<longrightarrow>
              (\<exists>p''. main_run env 4 p' = Some (Inr p'') \<and> server_pc p'' = MainLoop \<and> sessions p'' a = None
                \<and> queue_inv p'' as \<and> g_registry p'' = g_registry p \<and> sent_packets p'' = sent_packets p))))
    \<and> (\<forall>q w. server_pc q = MainDequeued a \<longrightarrow> sessions q a = Some w \<longrightarrow> s_conn_closed w \<longrightarrow>
        main_run env 2 q = Some (Inr (q\<lparr>sessions := (sessions q)(a := None), server_pc := MainLoop\<rparr>)))"
proof (intro conjI allI impI)
  show "main_run env 2 q = Some (Inr (q\<lparr>sessions := (sessions q)(a := None), server_pc := MainLoop\<rparr>))"
    if "server_pc q = MainDequeued a" "sessions q a = Some w" "s_conn_closed w" for q w
    using that by (rule closed_session_freed)
  let ?p' = "put_session a (v\<lparr>s_conn_closed := True\<rparr>) p"
  show "\<exists>p'. server_on_disconnected c p = Inr p' \<and> server_pc p' = server_pc p
      \<and> (if \<not> s_auth_queued v then
          sessions p' = (sessions p)(a := None)
          \<and> registry_map (g_registry p') = (if s_state v = SQMP_SESSION_STATE_CONN_ESTABLISHED
             then (registry_map (g_registry p))(s_name v := None) else registry_map (g_registry p))
          \<and> (main_holds (server_pc p) a \<longrightarrow> main_run env 2 p' = Some (Inl UseAfterFree))
        else
          sessions p' = (sessions p)(a \<mapsto> v\<lparr>s_conn_closed := True\<rparr>) \<and> g_registry p' = g_registry p
          \<and> (server_pc p = MainLoop \<longrightarrow> \<not> g_stop p \<longrightarrow> queue_inv p (a # as) \<longrightarrow>
              (\<exists>p''. main_run env 4 p' = Some (Inr p'') \<and> server_pc p'' = MainLoop \<and> sessions p'' a = None
                \<and> queue_inv p'' as \<and> g_registry p'' = g_registry p \<and> sent_packets p'' = sent_packets p)))"
  proof (cases "s_auth_queued v")
    case False
    have wf: "wf_session v" "wf_registry (g_registry p)" using assms by (auto simp: server_inv_def)
    obtain reg where reg: "sqmp_registry_remove (g_registry p) (s_username v) (s_username_len v) = Inr reg"
      "registry_map reg = (registry_map (g_registry p))(s_name v := None)"
      using reg.remove_spec [OF wf(2) wf_session_names(1) [OF wf(1)]] by (auto simp: s_name_def)
    let ?reg = "if s_state v = SQMP_SESSION_STATE_CONN_ESTABLISHED then reg else g_registry p"
    let ?q = "p\<lparr>g_registry := ?reg, sessions := (sessions p)(a := None)\<rparr>"
    have "server_on_disconnected c p = Inr ?q" using False assms reg by (simp add: server_on_disconnected_def)
    then show ?thesis using False reg(2) freed_session_faults [of ?q a env] by (intro exI [of _ ?q]) simp
  next
    case True
    have "server_on_disconnected c p = Inr ?p'" using True assms by (simp add: server_on_disconnected_def)
    then show ?thesis
      using True closed_head_freed [OF assms(3), of as env] by (intro exI [of _ ?p']) (simp add: put_session_def)
  qed
qed

theorem disconnect_frees_session_witness:
  "(\<exists>p' p''. server_on_disconnected 2 server_demo = Inr p' \<and> main_run env_ok 4 p' = Some (Inr p'')
     \<and> sessions p'' 4 = None \<and> sent_packets p'' = [])
   \<and> (\<exists>p'. server_on_disconnected 2 (server_demo\<lparr>sessions := [4 \<mapsto> waiting_session\<lparr>s_auth_queued := False\<rparr>],
         server_pc := MainVerified 4 True\<rparr>) = Inr p' \<and> main_run env_ok 2 p' = Some (Inl UseAfterFree))"
proof
  have conn: "sqmp_conn_get_user_data 2 server_demo = Inr (Some 4)"
    by (simp add: server_demo_def server_start_def sqmp_conn_get_user_data_def proto_demo_def)
  from disconnect_frees_session [OF _ this, of waiting_session env_ok "[]"]
  show "\<exists>p' p''. server_on_disconnected 2 server_demo = Inr p' \<and> main_run env_ok 4 p' = Some (Inr p'')
     \<and> sessions p'' 4 = None \<and> sent_packets p'' = []" by auto
  let ?v = "waiting_session\<lparr>s_auth_queued := False\<rparr>"
  let ?p = "server_demo\<lparr>sessions := [4 \<mapsto> ?v], server_pc := MainVerified 4 True\<rparr>"
  have "wf_session ?v" using waiting_session_simps(1) by (simp add: wf_session_def)
  then have "server_inv ?p" by (simp add: server_inv_def wf_registry_init)
  moreover have "sqmp_conn_get_user_data 2 ?p = Inr (Some 4)" using conn by (simp add: sqmp_conn_get_user_data_def)
  ultimately show "\<exists>p'. server_on_disconnected 2 ?p = Inr p' \<and> main_run env_ok 2 p' = Some (Inl UseAfterFree)"
    using disconnect_frees_session [of ?p 2 4 ?v env_ok "[]"] by auto
qed

text \<open>C29: the registry does not notice when a user's stream closes. MsQuic's \<^verbatim>\<open>SHUTDOWN_COMPLETE\<close>
  for a registered stream frees it and leaves the registry entry; when another established
  session then sends that user a message, the server follows the freed pointer.\<close>

theorem closed_stream_stays_registered:
  fixes p :: "'a sqmp_state_scheme" and r :: bytes
  assumes "healthy env" and "server_inv p" and "live_stream p t"
    and "sqmp_stream_get_user_data t p = Inr (Some b)" and "sessions p b = Some w"
    and "sessions p a = Some v" and "s_state v = SQMP_SESSION_STATE_CONN_ESTABLISHED"
    and "wf_pkt h" and "wf_chat m" and "unat (chat_name_len m) \<le> 32"
    and "unat (chat_ciphertext_len m) = length (chat_ciphertext m)"
    and "registry_map (g_registry p) (take (unat (chat_name_len m)) (chat_name m)) = Some (Some t, key)"
  shows "\<exists>p1. stream_cb env (server_config env) t (STREAM_SHUTDOWN_COMPLETE closing) p = Inr p1
    \<and> g_registry p1 = g_registry p
    \<and> sqmp_process_chat_send env st (Some a) (enc_pkt h @ enc_chat m @ r) p1 = Inl UseAfterFree"
proof -
  obtain x c q where chain: "stream_chain p (Some t) = Inr (x, c, q)" using assms(3) by (auto simp: live_stream_def)
  let ?w = "w\<lparr>s_auth_stream := None\<rparr>"
  let ?p0 = "put_session b ?w p"
  let ?p1 = "(if closing then ?p0 else api_do (StreamClose (stream_handle x)) ?p0)\<lparr>qs_streams := (qs_streams p)(t := None)\<rparr>"
  have cb: "stream_cb env (server_config env) t (STREAM_SHUTDOWN_COMPLETE closing) p = Inr ?p1"
    using chain assms(4,5)
    by (simp add: stream_cb_def server_config_def call_opt_def server_on_stream_closed_def Let_def api_do_def)
  define p1 where "p1 = ?p1"
  have reg: "g_registry p1 = g_registry p" and streams: "qs_streams p1 t = None"
    by (simp_all add: p1_def api_do_def)
  obtain v1 where v1: "sessions p1 a = Some v1" "s_state v1 = SQMP_SESSION_STATE_CONN_ESTABLISHED"
    "s_username v1 = s_username v" "s_username_len v1 = s_username_len v"
    using assms(5-7) by (cases "a = b") (auto simp: p1_def api_do_def)
  have wf: "wf_session v" "wf_registry (g_registry p)" using assms(2,6) by (auto simp: server_inv_def)
  have rd: "rdn (s_username v) 0 (unat (s_username_len v)) = Inr (s_name v)" "length (s_name v) \<le> 32"
    using wf(1) by (simp_all add: rdn_def s_name_def wf_session_def)
  have "stream_chain (p1\<lparr>qs_allocs := k\<rparr>) (Some t) = Inl UseAfterFree" for k
    using streams by (simp add: stream_chain_def)
  then have "sqmp_process_chat_send env st (Some a) (enc_pkt h @ enc_chat m @ r) p1 = Inl UseAfterFree"
    using assms(1,8,9,11,12) v1 rd chat_lookup [OF wf(2) assms(8-10), of r]
    by (simp add: sqmp_process_chat_send_def chat_reads pkt_reads alloc_healthy memcpy_def reg sqmp_stream_send_def Let_def
        rdn_all)
  then show ?thesis using cb reg unfolding p1_def [symmetric] by (intro exI [of _ p1]) simp
qed

theorem closed_stream_stays_registered_witness:
  "\<exists>p1. stream_cb env_ok (server_config env_ok) 5 (STREAM_SHUTDOWN_COMPLETE False)
       ((proto_demo SQMP_SESSION_STATE_CONN_ESTABLISHED)\<lparr>qs_streams := [5 \<mapsto> \<lparr>stream_handle = 10, stream_conn = 2,
          stream_user_data = Some 4\<rparr>]\<rparr>) = Inr p1
    \<and> sqmp_process_chat_send env_ok 3 (Some 4) (enc_pkt (make_pkt SQMP_MSG_TYPE_CHAT_SEND 6) @ enc_chat demo_chat @ [0]) p1
        = Inl UseAfterFree"
proof -
  let ?p = "(proto_demo SQMP_SESSION_STATE_CONN_ESTABLISHED)\<lparr>qs_streams := [5 \<mapsto> \<lparr>stream_handle = 10, stream_conn = 2,
          stream_user_data = Some 4\<rparr>]\<rparr>"
  have "server_inv ?p" "live_stream ?p 5" "sqmp_stream_get_user_data 5 ?p = Inr (Some 4)"
    by (simp_all add: server_inv_def proto_demo_def wf_one_user_registry live_stream_def stream_chain_def
        sqmp_stream_get_user_data_def)
  from closed_stream_stays_registered [OF healthy_env_ok this, of "proto_session SQMP_SESSION_STATE_CONN_ESTABLISHED" 4
      "proto_session SQMP_SESSION_STATE_CONN_ESTABLISHED" "make_pkt SQMP_MSG_TYPE_CHAT_SEND 6" demo_chat "zeros 32" False 3 "[0]"]
  show ?thesis by (auto simp: one_user_registry_map)
qed

text \<open>C21: a packet never frees a session or moves one backwards. Whatever bytes arrive on
  whatever stream, if the dispatcher completes, every session is still there and its state is the
  same or further along HELLO, AUTH, CONN_ESTABLISHED, CLOSING.\<close>

theorem packets_move_sessions_forward:
  assumes "server_on_stream_recv env st d n p = Inr p'" and "sessions p a = Some v"
  shows "\<exists>v'. sessions p' a = Some v' \<and> s_state v \<le> s_state v'"
proof -
  have "sessions_evolve p p'"
  proof (cases "\<exists>s. server_process_bye s p = Inr p'")
    case True
    then obtain b w where w: "sessions p b = Some w" and
      p': "p' = p \<or> s_state w = SQMP_SESSION_STATE_CONN_ESTABLISHED
         \<and> sessions p' = (sessions p)(b \<mapsto> w\<lparr>s_state := SQMP_SESSION_STATE_CLOSING\<rparr>)"
      by (auto simp: server_process_bye_def bindr_eq_Inr_iff get_session_eq_Inr_iff split: if_splits)
    from p' show ?thesis
      using sessions_evolve_upd [OF w, of "w\<lparr>s_state := SQMP_SESSION_STATE_CLOSING\<rparr>" p']
      by (auto simp: session_evolves_def session_state_order wf_session_def sessions_evolve_same)
  next
    case False
    then show ?thesis
      using assms(1)
      by (auto simp: server_on_stream_recv_def bindr_eq_Inr_iff weak_process_error_def sessions_evolve_same
          split: if_splits dest!: handler_frames) (auto simp: handler_frame_def)
  qed
  then show ?thesis using assms(2) unfolding sessions_evolve_def session_evolves_def by blast
qed

theorem packets_move_sessions_forward_witness:
  "\<exists>p' v'. server_on_stream_recv env_ok 3 (bye_pkt 6 @ [0]) 12 (proto_demo SQMP_SESSION_STATE_CONN_ESTABLISHED) = Inr p'
     \<and> sessions p' 4 = Some v' \<and> SQMP_SESSION_STATE_CONN_ESTABLISHED \<le> s_state v'"
proof -
  let ?p = "proto_demo SQMP_SESSION_STATE_CONN_ESTABLISHED" and ?s = "proto_session SQMP_SESSION_STATE_CONN_ESTABLISHED"
  obtain reg where "sqmp_registry_remove one_user_registry (s_username ?s) (s_username_len ?s) = Inr reg"
    using reg.remove_spec [OF wf_one_user_registry wf_session_names(1) [OF wf_proto_session(1)]] by blast
  moreover have "sqmp_stream_get_user_data 3 ?p = Inr (Some 4)"
    by (simp add: proto_demo_def sqmp_stream_get_user_data_def)
  ultimately obtain p' where p': "server_on_stream_recv env_ok 3 (bye_pkt 6 @ [0]) 12 ?p = Inr p'"
    by (simp add: server_on_stream_recv_def bye_pkt_def pkt_reads server_process_bye_def)
  from packets_move_sessions_forward [OF this, of 4 ?s] p' show ?thesis by auto
qed

section \<open>Start-up\<close>

text \<open>The six MsQuic calls of a start-up that succeeds; the handles are those the library returned.\<close>

definition server_boot_calls :: "env \<Rightarrow> quic_call list" where
  "server_boot_calls env =
     (let reg_open = RegistrationOpen (ascii ''squimpchat-server'');
          reg = env_handle env 1 reg_open;
          config_open = ConfigurationOpen reg (ascii ''squimp'')
            \<lparr>set_IdleTimeoutMs = 30000, set_KeepAliveIntervalMs = None, set_PeerBidiStreamCount = 16\<rparr>;
          config = env_handle env 2 config_open;
          listener = env_handle env 4 (ListenerOpen reg)
      in [MsQuicOpenVersion 2, reg_open, config_open,
          ConfigurationLoadCredential config (CertificateFile (ascii ''certs/server.key'') (ascii ''certs/server.crt'')),
          ListenerOpen reg, ListenerStart listener (ascii ''squimp'') 4433])"

definition boot_call_fails :: "env \<Rightarrow> nat \<Rightarrow> bool" where
  "boot_call_fails env k \<longleftrightarrow> QUIC_FAILED (env_status env k (server_boot_calls env ! k))"

lemmas boot_simps = server_boot_def sqmp_quic_init_def sqmp_quic_listen_def alloc_def api_call_def api_open_def Let_def
  server_config_def idle_timeout_def QUIC_API_VERSION_2_def SERVER_ALPN_def SERVER_PORT_def SERVER_CERT_def SERVER_KEY_def
  sqmp_auth_queue_init_def

lemma server_boot_releases:
  assumes "server_boot env p = Inr (Some r, p')" and "resources_held env p = []" and "handles_nonnull env"
  shows "resources_held env p' = []"
proof -
  obtain ctx p1 where init: "sqmp_quic_init env (server_config env :: (server_state) sqmp_quic_config) p = (ctx, p1)"
    by (cases "sqmp_quic_init env (server_config env :: (server_state) sqmp_quic_config) p")
  note owns = sqmp_quic_init_owns [OF assms(2,3), of "server_config env", unfolded init prod.case]
  show ?thesis
  proof (cases ctx)
    case None
    then show ?thesis using owns init assms(1) by (simp add: server_boot_def)
  next
    case (Some c)
    let ?p2 = "sqmp_auth_queue_init (p1\<lparr>server_ctx := c\<rparr>)"
    obtain x where "ctx_owns env c ?p2" "qs_ctxs ?p2 c = Some x" "ctx_config x = 0" "ctx_listener x = 0"
      using owns Some by (auto simp: ctx_owns_def sqmp_auth_queue_init_def resources_held_def)
    from sqmp_quic_listen_owns [OF this assms(3), of SERVER_ALPN SERVER_PORT SERVER_CERT SERVER_KEY] obtain q p3 where
      listen: "sqmp_quic_listen env c SERVER_ALPN SERVER_PORT SERVER_CERT SERVER_KEY ?p2 = Inr (q, p3)" "ctx_owns env c p3"
      by blast
    then show ?thesis
      using sqmp_quic_destroy_releases [OF listen(2)] Some init assms(1)
      by (auto simp: server_boot_def bindr_eq_Inr_iff split: if_splits)
  qed
qed

lemma server_boot_fails:
  assumes "env_malloc env (qs_allocs p)" and "qs_calls p = []"
    and "k < 6" and "boot_call_fails env k" and "\<forall>j < k. \<not> boot_call_fails env j"
  shows "\<exists>p' cs. server_boot env p = Inr (Some 1, p') \<and> qs_calls p' = take (Suc k) (server_boot_calls env) @ cs
    \<and> (\<forall>c \<in> set cs. closes c \<noteq> None)"
proof -
  note s = boot_simps server_boot_calls_def boot_call_fails_def sqmp_quic_destroy_def api_do_def numeral_2_eq_2 [symmetric]
  have "k = 0 \<or> k = 1 \<or> k = 2 \<or> k = 3 \<or> k = 4 \<or> k = 5" using assms(3) by linarith
  then consider "k = 0" | "k = 1" | "k = 2" | "k = 3" | "k = 4" | "k = 5" by blast
  then show ?thesis
  proof cases
    case 1
    then show ?thesis using assms(1,2,4) by (simp add: s)
  next
    case 2
    then show ?thesis using assms(1,2,4) assms(5) [rule_format, of 0] by (simp add: s)
  next
    case 3
    then show ?thesis
      using assms(1,2,4) assms(5) [rule_format, of 0] assms(5) [rule_format, of 1] by (simp add: s)
  next
    case 4
    then show ?thesis
      using assms(1,2,4) assms(5) [rule_format, of 0] assms(5) [rule_format, of 1] assms(5) [rule_format, of 2]
      by (simp add: s)
  next
    case 5
    then show ?thesis
      using assms(1,2,4) assms(5) [rule_format, of 0] assms(5) [rule_format, of 1] assms(5) [rule_format, of 2]
        assms(5) [rule_format, of 3] by (simp add: s)
  next
    case 6
    then show ?thesis
      using assms(1,2,4) assms(5) [rule_format, of 0] assms(5) [rule_format, of 1] assms(5) [rule_format, of 2]
        assms(5) [rule_format, of 3] assms(5) [rule_format, of 4] by (simp add: s)
  qed
qed

text \<open>C38: start-up, from the zeroed globals. When MsQuic accepts every call, \<^verbatim>\<open>main\<close> reaches its loop
  in the state \<open>server_started\<close> describes, having made exactly these six calls: it opens the library,
  a registration, a configuration with a 30 s idle timeout and 16 streams per peer, loads the
  certificate, opens a listener and starts it for ALPN \<^verbatim>\<open>squimp\<close> on port 4433. Whichever call is the
  first to fail, \<^verbatim>\<open>main\<close> makes no further call but closing ones, holds nothing of the
  library any more (if MsQuic returns non-null handles) and exits with 1; without memory for the context it
  exits with 1 at once.\<close>

theorem server_boot_reaches_loop:
  assumes "sessions p = Map.empty" and "qs_conns p = Map.empty" and "qs_streams p = Map.empty"
    and "g_registry p = g_registry_init" and "g_auth_queue_head p = None" and "g_auth_queue_tail p = None"
    and "g_next_session_id p = 1" and "\<not> g_stop p" and "qs_calls p = []"
  shows "if \<not> env_malloc env (qs_allocs p)
    then \<exists>p'. server_boot env p = Inr (Some 1, p') \<and> qs_calls p' = []
    else ((\<forall>k < 6. \<not> boot_call_fails env k) \<longrightarrow>
        (\<exists>p'. server_boot env p = Inr (None, p') \<and> server_started p' \<and> server_reach env p'
          \<and> qs_calls p' = server_boot_calls env))
      \<and> (\<forall>k < 6. boot_call_fails env k \<longrightarrow> (\<forall>j < k. \<not> boot_call_fails env j) \<longrightarrow>
        (\<exists>p' cs. server_boot env p = Inr (Some 1, p') \<and> qs_calls p' = take (Suc k) (server_boot_calls env) @ cs
          \<and> (\<forall>c \<in> set cs. closes c \<noteq> None) \<and> (handles_nonnull env \<longrightarrow> resources_held env p' = [])))"
proof (cases "env_malloc env (qs_allocs p)")
  case False
  then show ?thesis using assms(9) by (simp add: server_boot_def sqmp_quic_init_def alloc_def)
next
  case True
  have ok: "\<exists>p'. server_boot env p = Inr (None, p') \<and> server_started p' \<and> qs_calls p' = server_boot_calls env"
    if "\<forall>k < 6. \<not> boot_call_fails env k"
  proof -
    have "\<not> boot_call_fails env 0" "\<not> boot_call_fails env 1" "\<not> boot_call_fails env 2"
      "\<not> boot_call_fails env 3" "\<not> boot_call_fails env 4" "\<not> boot_call_fails env 5" using that by simp_all
    then show ?thesis
      using True assms by (simp add: boot_simps server_boot_calls_def boot_call_fails_def server_started_def numeral_2_eq_2 [symmetric])
  qed
  show ?thesis
    using True ok server_boot_fails [OF True assms(9)] server_reach.start server_boot_releases [of env p 1] assms(9)
    by (simp add: resources_held_def) metis
qed

theorem server_boot_reaches_loop_witness:
  "(\<exists>p'. server_boot env_ok (server_start\<lparr>qs_ctxs := Map.empty, qs_allocs := 0\<rparr>) = Inr (None, p')
     \<and> server_reach env_ok p' \<and> qs_calls p' = server_boot_calls env_ok)
   \<and> (\<exists>p'. server_boot (env_ok\<lparr>env_status := (\<lambda>n c. if n = 4 then 1 else 0)\<rparr>)
        (server_start\<lparr>qs_ctxs := Map.empty, qs_allocs := 0\<rparr>) = Inr (Some 1, p'))"
proof -
  let ?p = "server_start\<lparr>qs_ctxs := Map.empty, qs_allocs := 0\<rparr>" and ?e = "env_ok\<lparr>env_status := (\<lambda>n c. if n = 4 then 1 else 0)\<rparr>"
  have p: "sessions ?p = Map.empty" "qs_conns ?p = Map.empty" "qs_streams ?p = Map.empty" "g_registry ?p = g_registry_init"
    "g_auth_queue_head ?p = None" "g_auth_queue_tail ?p = None" "g_next_session_id ?p = 1" "\<not> g_stop ?p" "qs_calls ?p = []"
    by (simp_all add: server_start_def)
  have ok: "\<not> boot_call_fails env_ok k" for k by (simp add: boot_call_fails_def)
  have bad: "boot_call_fails ?e k \<longleftrightarrow> k = 4" for k by (simp add: boot_call_fails_def QUIC_FAILED_def)
  have "\<exists>p'. server_boot ?e ?p = Inr (Some 1, p')"
    using server_boot_reaches_loop [OF p, of ?e, unfolded bad] by (auto dest!: spec [of _ 4])
  moreover have "\<exists>p'. server_boot env_ok ?p = Inr (None, p') \<and> server_reach env_ok p' \<and> qs_calls p' = server_boot_calls env_ok"
    using server_boot_reaches_loop [OF p, of env_ok] ok by auto
  ultimately show ?thesis by blast
qed

end
