(* ===== verification/Sqmp_Crypto.thy ===== *)
theory Sqmp_Crypto
  imports Sqmp_Prelude
begin

text \<open>
  The end-to-end encryption of \<^verbatim>\<open>src/client/client.c\<close>. OpenSSL is a parameter: a record of the
  functions the client calls. What the program relies on in them is \<open>crypto_laws\<close>.
\<close>

section \<open>The crypto library\<close>

text \<open>
  \<open>x25519_keygen n\<close> and \<open>rand_bytes n\<close> are the answers to the n-th request for randomness; a \<open>None\<close>
  is a failing call. A key pair is (private, public). \<open>gcm_encrypt key nonce in inl\<close> encrypts the
  \<open>inl\<close> bytes at \<^verbatim>\<open>in\<close>, where \<open>inl\<close> is the \<^verbatim>\<open>int\<close> the program passes: it gives the
  \<^verbatim>\<open>outlen + final_len\<close> bytes written and the tag. \<open>gcm_decrypt key nonce in inl tag\<close> is its inverse.
\<close>

record crypto =
  sha256 :: "bytes \<Rightarrow> bytes"
  x25519_keygen :: "nat \<Rightarrow> (bytes \<times> bytes) option"
  x25519_derive :: "bytes \<Rightarrow> bytes \<Rightarrow> bytes option"
  rand_bytes :: "nat \<Rightarrow> nat \<Rightarrow> bytes option"
  gcm_encrypt :: "bytes \<Rightarrow> bytes \<Rightarrow> bytes \<Rightarrow> int \<Rightarrow> (bytes \<times> bytes) option"
  gcm_decrypt :: "bytes \<Rightarrow> bytes \<Rightarrow> bytes \<Rightarrow> int \<Rightarrow> bytes \<Rightarrow> bytes option"

text \<open>\<^verbatim>\<open>(int)len\<close> of a length: the low 32 bits, read as a signed number.\<close>

definition c_int :: "nat \<Rightarrow> int" where
  "c_int n = sint (of_nat n :: u32)"

text \<open>\<open>Inr None\<close> is the return value -1; otherwise the ephemeral public key, the nonce and the first
  \<^verbatim>\<open>*ciphertext_len_out\<close> bytes of \<^verbatim>\<open>ciphertext_out\<close>, a buffer of \<^verbatim>\<open>plaintext_len + 16\<close> bytes. The
  length is passed to OpenSSL as an \<^verbatim>\<open>int\<close> and the result's length is a \<^verbatim>\<open>uint32_t\<close>. \<open>n\<close> numbers
  the requests for randomness.\<close>

definition encrypt_chat :: "crypto \<Rightarrow> nat \<Rightarrow> bytes \<Rightarrow> bytes \<Rightarrow> fault + (bytes \<times> bytes \<times> bytes) option" where
  "encrypt_chat cr n peer_pubkey plaintext =
     (case x25519_keygen cr n of
        None \<Rightarrow> Inr None
      | Some (priv, ephemeral_pub) \<Rightarrow>
          (case x25519_derive cr priv peer_pubkey of
             None \<Rightarrow> Inr None
           | Some shared \<Rightarrow>
               let aes_key = sha256 cr shared in
               (case rand_bytes cr (Suc n) 12 of
                  None \<Rightarrow> Inr None
                | Some nonce \<Rightarrow>
                    (case gcm_encrypt cr aes_key nonce plaintext (c_int (length plaintext)) of
                       None \<Rightarrow> Inr None
                     | Some (ct, tag) \<Rightarrow>
                         bindr (memcpy (zeros (length plaintext + 16)) (ct @ tag)) (\<lambda>ciphertext_out.
                           let ciphertext_len = (of_nat (length ct + 16) :: u32)
                           in Inr (Some (ephemeral_pub, nonce, take (unat ciphertext_len) ciphertext_out)))))))"

text \<open>\<open>None\<close> is the return value -1, otherwise the \<^verbatim>\<open>outlen + final_len\<close> bytes written.\<close>

definition decrypt_chat :: "crypto \<Rightarrow> bytes \<Rightarrow> bytes \<Rightarrow> bytes \<Rightarrow> bytes \<Rightarrow> bytes option" where
  "decrypt_chat cr privkey ephemeral_pub nonce ciphertext =
     (if length ciphertext < 16 then None
      else (case x25519_derive cr privkey ephemeral_pub of
          None \<Rightarrow> None
        | Some shared \<Rightarrow>
            let aes_key = sha256 cr shared; data_len = length ciphertext - 16 in
            gcm_decrypt cr aes_key nonce (take data_len ciphertext) (c_int data_len) (drop data_len ciphertext)))"

section \<open>End-to-end encryption\<close>

text \<open>What the program relies on in OpenSSL: key and nonce lengths, the X25519 agreement, and that
  AES-GCM decryption inverts encryption, with a 16-byte tag and a ciphertext as long as the text.
  Nothing is assumed of a negative length or one beyond the input.\<close>

definition crypto_laws :: "crypto \<Rightarrow> bool" where
  "crypto_laws cr \<longleftrightarrow>
     (\<forall>n priv pub. x25519_keygen cr n = Some (priv, pub) \<longrightarrow> length priv = 32 \<and> length pub = 32)
   \<and> (\<forall>n m a A b B. x25519_keygen cr n = Some (a, A) \<longrightarrow> x25519_keygen cr m = Some (b, B) \<longrightarrow>
        x25519_derive cr a B = x25519_derive cr b A)
   \<and> (\<forall>n k x. rand_bytes cr n k = Some x \<longrightarrow> length x = k)
   \<and> (\<forall>d. length (sha256 cr d) = 32)
   \<and> (\<forall>k nonce msg ct tag. gcm_encrypt cr k nonce msg (int (length msg)) = Some (ct, tag) \<longrightarrow>
        length ct = length msg \<and> length tag = 16 \<and> gcm_decrypt cr k nonce ct (int (length ct)) tag = Some msg)"

lemma crypto_lawsD:
  assumes "crypto_laws cr"
  shows "x25519_keygen cr n = Some (a, A) \<Longrightarrow> length a = 32"
    and "x25519_keygen cr n = Some (a, A) \<Longrightarrow> length A = 32"
    and "x25519_keygen cr n = Some (a, A) \<Longrightarrow> x25519_keygen cr m = Some (b, B) \<Longrightarrow>
      x25519_derive cr a B = x25519_derive cr b A"
    and "rand_bytes cr n k = Some x \<Longrightarrow> length x = k"
    and "length (sha256 cr d) = 32"
    and "gcm_encrypt cr key nonce msg (int (length msg)) = Some (ct, tag) \<Longrightarrow> length ct = length msg"
    and "gcm_encrypt cr key nonce msg (int (length msg)) = Some (ct, tag) \<Longrightarrow> length tag = 16"
    and "gcm_encrypt cr key nonce msg (int (length msg)) = Some (ct, tag) \<Longrightarrow> gcm_decrypt cr key nonce ct (int (length ct)) tag = Some msg"
  using assms unfolding crypto_laws_def by blast+

text \<open>A message whose length with the tag is an \<^verbatim>\<open>int\<close>.\<close>

definition int_sized :: "bytes \<Rightarrow> bool" where
  "int_sized msg \<longleftrightarrow> length msg + 16 < 2 ^ 31"

lemma c_int_id: "n < 2 ^ 31 \<Longrightarrow> c_int n = int n"
proof -
  assume n: "n < 2 ^ 31"
  then have "uint (of_nat n :: u32) = int n" by (simp add: uint_nat unat_of_nat)
  then show ?thesis using n by (simp add: c_int_def sint_uint signed_take_bit_int_eq_self)
qed

lemma int_sized_c_int: "int_sized msg \<Longrightarrow> c_int (length msg) = int (length msg)"
  by (simp add: int_sized_def c_int_id)

lemma encrypt_chat_cases:
  assumes "crypto_laws cr" and "int_sized msg"
  obtains (fails) "encrypt_chat cr n key msg = Inr None"
  | (works) priv eph shared nonce ct tag where "x25519_keygen cr n = Some (priv, eph)"
      and "x25519_derive cr priv key = Some shared" and "rand_bytes cr (Suc n) 12 = Some nonce"
      and "gcm_encrypt cr (sha256 cr shared) nonce msg (int (length msg)) = Some (ct, tag)"
      and "encrypt_chat cr n key msg = Inr (Some (eph, nonce, ct @ tag))"
proof (cases "encrypt_chat cr n key msg = Inr None")
  case True
  then show thesis by (rule fails)
next
  case False
  then obtain priv eph shared nonce ct tag where e: "x25519_keygen cr n = Some (priv, eph)"
      "x25519_derive cr priv key = Some shared" "rand_bytes cr (Suc n) 12 = Some nonce"
      "gcm_encrypt cr (sha256 cr shared) nonce msg (int (length msg)) = Some (ct, tag)"
    using int_sized_c_int [OF assms(2)] by (auto simp: encrypt_chat_def split: option.splits prod.splits)
  moreover have "length ct = length msg" using crypto_lawsD(6) [OF assms(1) e(4)] .
  moreover have "length tag = 16" using crypto_lawsD(7) [OF assms(1) e(4)] .
  moreover have "unat (of_nat (length msg + 16) :: u32) = length msg + 16"
    using assms(2) by (simp only: unat_of_nat) (simp add: int_sized_def)
  ultimately show thesis
    using works int_sized_c_int [OF assms(2)] by (simp add: encrypt_chat_def del: of_nat_add)
qed

lemma encrypt_chat_total: "crypto_laws cr \<Longrightarrow> int_sized msg \<Longrightarrow> encrypt_chat cr n key msg \<noteq> Inl e"
  by (cases rule: encrypt_chat_cases [of cr msg n key]) simp_all

lemma encrypt_chat_lengths:
  assumes "crypto_laws cr" and "int_sized msg" and "encrypt_chat cr n key msg = Inr (Some (eph, nonce, ct))"
  shows "length eph = 32" "length nonce = 12" "length ct = length msg + 16"
proof -
  obtain a shared c tag where e: "x25519_keygen cr n = Some (a, eph)" "rand_bytes cr (Suc n) 12 = Some nonce"
    "gcm_encrypt cr (sha256 cr shared) nonce msg (int (length msg)) = Some (c, tag)" "ct = c @ tag"
  proof (cases rule: encrypt_chat_cases [OF assms(1,2), where n = n and key = key])
    case 1
    then show thesis using assms(3) by simp
  next
    case (2 priv eph' shared nonce' c tag)
    then show thesis using assms(3) that [of priv shared c tag] by simp
  qed
  show "length eph = 32" using crypto_lawsD(2) [OF assms(1) e(1)] .
  show "length nonce = 12" using crypto_lawsD(4) [OF assms(1) e(2)] .
  show "length ct = length msg + 16" using crypto_lawsD(6,7) [OF assms(1) e(3)] e(4) by simp
qed

lemma decrypt_encrypt_chat:
  assumes "crypto_laws cr" and "x25519_keygen cr k = Some (priv, pub)"
    and "int_sized msg" and "encrypt_chat cr n pub msg = Inr (Some (eph, nonce, ct))"
  shows "decrypt_chat cr priv eph nonce ct = Some msg"
  using assms(1,3)
proof (cases rule: encrypt_chat_cases [of cr msg n pub])
  case fails
  then show ?thesis using assms(4) by simp
next
  case (works a A shared nonce' c tag)
  then have e: "A = eph" "nonce' = nonce" "ct = c @ tag" using assms(4) by simp_all
  have "x25519_derive cr priv eph = Some shared"
    using works(1,2) crypto_lawsD(3) [OF assms(1,2) works(1)] e by simp
  moreover have "length tag = 16" "length c = length msg"
    using crypto_lawsD(6,7) [OF assms(1) works(4)] by simp_all
  moreover have "gcm_decrypt cr (sha256 cr shared) nonce c (int (length c)) tag = Some msg"
    using crypto_lawsD(8) [OF assms(1) works(4)] e by simp
  ultimately show ?thesis using e int_sized_c_int [OF assms(3)] by (simp add: decrypt_chat_def)
qed

text \<open>A concrete library that satisfies the laws: keys are the bytes of a counter, agreement is
  exclusive or, the cipher adds the first key byte, and the tag is the text's length.\<close>

definition demo_tag :: "bytes \<Rightarrow> bytes" where
  "demo_tag ct = of_nat (length ct) # zeros 15"

definition demo_crypto :: crypto where
  "demo_crypto = \<lparr>sha256 = (\<lambda>d. take 32 (d @ zeros 32)),
     x25519_keygen = (\<lambda>n. Some (replicate 32 (of_nat (Suc n)), replicate 32 (of_nat (Suc n)))),
     x25519_derive = (\<lambda>a B. Some (map2 (XOR) a B)),
     rand_bytes = (\<lambda>n k. Some (replicate k (of_nat n))),
     gcm_encrypt = (\<lambda>k nonce t inl. Some (map (\<lambda>c. c + hd k) t, demo_tag t)),
     gcm_decrypt = (\<lambda>k nonce ct inl tag. if tag = demo_tag ct then Some (map (\<lambda>c. c - hd k) ct) else None)\<rparr>"

lemma demo_crypto_laws: "crypto_laws demo_crypto"
proof -
  have "min n 32 + (32 - n) = 32" for n :: nat by arith
  then show ?thesis by (simp add: crypto_laws_def demo_crypto_def demo_tag_def o_def xor.commute)
qed

text \<open>C8: end-to-end encryption. Under the laws above, for messages whose length with the 16-byte tag
  fits an \<^verbatim>\<open>int\<close> (the code casts lengths to \<^verbatim>\<open>int\<close>), \<^verbatim>\<open>encrypt_chat\<close> never writes past its output buffer of \<^verbatim>\<open>msglen + 16\<close> bytes; when it succeeds for the public key of a generated key
  pair, it fills exactly that buffer, gives a 32-byte ephemeral key and a 12-byte nonce, and
  \<^verbatim>\<open>decrypt_chat\<close> with the private key of the pair gives back the message. A ciphertext shorter
  than the tag is refused before OpenSSL is called.\<close>

theorem encryption_round_trip:
  assumes "crypto_laws cr" and "x25519_keygen cr k = Some (priv, pub)" and "length msg + 16 < 2 ^ 31"
  shows "case encrypt_chat cr n pub msg of
      Inl e \<Rightarrow> False
    | Inr None \<Rightarrow> True
    | Inr (Some (eph, nonce, ct)) \<Rightarrow> length eph = 32 \<and> length nonce = 12 \<and> length ct = length msg + 16
        \<and> decrypt_chat cr priv eph nonce ct = Some msg
        \<and> (\<forall>j < 16. decrypt_chat cr priv eph nonce (take j ct) = None)"
proof -
  have sized: "int_sized msg" using assms(3) by (simp add: int_sized_def)
  show ?thesis
  proof (cases "encrypt_chat cr n pub msg")
    case (Inl e)
    then show ?thesis using encrypt_chat_total [OF assms(1) sized] by simp
  next
    case (Inr r)
    then show ?thesis
      using encrypt_chat_lengths [OF assms(1) sized, where n = n and key = pub] decrypt_encrypt_chat [OF assms(1,2) sized, where n = n]
      by (auto simp: decrypt_chat_def [of _ _ _ _ "take _ _"] split: option.split)
  qed
qed

theorem encryption_round_trip_witness:
  "encrypt_chat demo_crypto 4 (replicate 32 1) [104, 105]
     = Inr (Some (replicate 32 5, replicate 12 5, [108, 109, 2] @ zeros 15))
   \<and> decrypt_chat demo_crypto (replicate 32 1) (replicate 32 5) (replicate 12 5) ([108, 109, 2] @ zeros 15) = Some [104, 105]"
proof -
  have k: "x25519_keygen demo_crypto 0 = Some (replicate 32 1, replicate 32 1)" by (simp add: demo_crypto_def)
  have e: "encrypt_chat demo_crypto 4 (replicate 32 1) [104, 105]
     = Inr (Some (replicate 32 5, replicate 12 5, [108, 109, 2] @ zeros 15))"
    by (simp add: encrypt_chat_def demo_crypto_def demo_tag_def zip_replicate)
  show ?thesis using encryption_round_trip [OF demo_crypto_laws k, where n = 4 and msg = "[104, 105]"] e by simp
qed

end
