(* ===== verification/Sqmp_Client.thy ===== *)
theory Sqmp_Client
  imports Sqmp_Protocol Sqmp_Users Sqmp_Crypto
begin

text \<open>
  \<^verbatim>\<open>src/client/client.c\<close>: the callbacks MsQuic's threads run and the main thread from start-up to
  exit. Terminal handling and readline's redisplay are not modelled. The main thread is cut at its
  blocking calls, so that callbacks and signals can come in between.
\<close>

section \<open>State\<close>

text \<open>Where the main thread is. \<open>CWaitKey\<close> carries the recipient and the message that \<^verbatim>\<open>send_chat\<close> is
  about to encrypt.\<close>

datatype client_pc =
    CStart
  | CWaitLogin
  | CLoginCheck
  | CLogin
  | CWaitAuth
  | CAuthChecked
  | CPrompt
  | CReadline
  | CWaitKey bytes bytes
  | CDisconnect
  | CReturned

record client_state = sqmp_state +
  g_interrupted :: bool
  g_conn_alive :: bool
  g_readline_active :: bool
  rng_calls :: nat
  c_ctx :: addr
  c_conn :: addr
  c_stream :: addr
  client_pc :: client_pc
  sig_delivered :: bool

text \<open>\<^verbatim>\<open>main\<close>'s local \<^verbatim>\<open>session\<close>; \<open>alloc\<close> never returns the address 0.\<close>

definition CLIENT_SESSION :: addr where
  "CLIENT_SESSION = 0"

section \<open>Signals\<close>

text \<open>
  The handler sets the flag. It is installed without \<^verbatim>\<open>SA_RESTART\<close>: a signal that arrives while the
  main thread is blocked makes the blocking call fail, one that arrives before does not.
  \<open>sig_delivered\<close> says that a signal has arrived since the main thread got where it is. Callbacks
  set the flag themselves and send the signal with \<^verbatim>\<open>pthread_kill\<close>. While readline waits for input
  it calls \<open>rl_interrupt_hook\<close> every 100 ms; the hook ends the input with an empty line once the flag
  is set. A line entered before the next call of the hook is returned as it is.
\<close>

definition client_sig_handler :: "client_state \<Rightarrow> client_state" where
  "client_sig_handler p = p\<lparr>g_interrupted := True, sig_delivered := True\<rparr>"

definition rl_interrupt_hook :: "client_state \<Rightarrow> bytes \<Rightarrow> (bytes \<times> bool)" where
  "rl_interrupt_hook p line = (if g_interrupted p then ([], True) else (line, False))"

definition client_goto :: "client_pc \<Rightarrow> client_state \<Rightarrow> client_state" where
  "client_goto pc p = p\<lparr>client_pc := pc, sig_delivered := False\<rparr>"

section \<open>Callbacks\<close>

definition client_on_connected :: "addr \<Rightarrow> client_state \<Rightarrow> fault + client_state" where
  "client_on_connected conn p = Inr (out (ascii ''QUIC connection established'') p)"

definition client_on_disconnected :: "addr \<Rightarrow> client_state \<Rightarrow> fault + client_state" where
  "client_on_disconnected conn p =
     Inr (client_sig_handler ((out (ascii ''Disconnected from server'') p)\<lparr>g_conn_alive := False\<rparr>))"

definition client_process_bye ::
  "env \<Rightarrow> addr \<Rightarrow> addr option \<Rightarrow> client_state \<Rightarrow> fault + client_state" where
  "client_process_bye env stream session p =
     bindr (sqmp_send_bye env (Some stream) session p) (\<lambda>p1. Inr (client_sig_handler p1))"

definition client_process_error ::
  "addr option \<Rightarrow> bytes \<Rightarrow> client_state \<Rightarrow> fault + client_state" where
  "client_process_error session d p =
     bindr (get_error_code d) (\<lambda>code.
     bindr (get_error_desc_len d) (\<lambda>dlen.
     bindr (rd_str d 14 (unat dlen)) (\<lambda>desc.
     let p1 = out (ascii ''[error 0x'' @ print_02x code @ ascii ''] '' @ desc) p in
     if code = error_code SQMP_ERROR_CODE_USER_NOT_FOUND \<and> session \<noteq> None
     then bindr (get_session p1 session) (\<lambda>v.
       Inr (put_session (the session)
         (v\<lparr>s_key_fetch_result := zeros 32, s_key_fetch_sem := Suc (s_key_fetch_sem v)\<rparr>) p1))
     else Inr p1)))"

definition client_process_chat_deliver ::
  "env \<Rightarrow> crypto \<Rightarrow> addr option \<Rightarrow> bytes \<Rightarrow> client_state \<Rightarrow> fault + client_state" where
  "client_process_chat_deliver env cr session d p =
     bindr (get_session p session) (\<lambda>v.
     if s_state v \<noteq> SQMP_SESSION_STATE_CONN_ESTABLISHED then Inr p
     else
       bindr (get_chat_name_len d) (\<lambda>n.
       bindr (rd_str d 13 (unat n)) (\<lambda>sender.
       let p1 = out (ascii ''[from: '' @ sender @ ascii ''] '') p in
       bindr (get_chat_enc_key_len d) (\<lambda>klen.
       bindr (get_chat_ciphertext_len d) (\<lambda>clen.
       if klen \<noteq> 32 \<or> clen < 16 then Inr (out (ascii ''ERROR: cannot decrypt'') p1)
       else
         let (mem, p2) = alloc env p1 in
         if mem = None then Inr (out (ascii ''ERROR: alloc error'') p2)
         else
           bindr (get_chat_encrypted_key d 32) (\<lambda>eph.
           bindr (get_chat_nonce d) (\<lambda>nonce.
           bindr (get_chat_ciphertext d (unat clen)) (\<lambda>ct.
           (case decrypt_chat cr (s_client_privkey v) eph nonce ct of
              Some plaintext \<Rightarrow> Inr (out (cstr plaintext) p2)
            | None \<Rightarrow> Inr (out (ascii ''ERROR: decrypt failed'') p2))))))))))"

definition client_on_stream_recv ::
  "env \<Rightarrow> crypto \<Rightarrow> addr \<Rightarrow> bytes \<Rightarrow> nat \<Rightarrow> client_state \<Rightarrow> fault + client_state" where
  "client_on_stream_recv env cr stream d len p =
     (if len < SQMP_PKT_FIXED_LEN then Inr p
      else
        bindr (sqmp_stream_get_user_data stream p) (\<lambda>session.
        bindr (get_msg_type d) (\<lambda>ty.
        if ty = msg_code SQMP_MSG_TYPE_HELLO_ACK then sqmp_process_hello_ack session d p
        else if ty = msg_code SQMP_MSG_TYPE_AUTH_RESP then sqmp_process_auth_resp session d p
        else if ty = msg_code SQMP_MSG_TYPE_KEY_RESP then sqmp_process_key_resp session d p
        else if ty = msg_code SQMP_MSG_TYPE_CHAT_DELIVER then client_process_chat_deliver env cr session d p
        else if ty = msg_code SQMP_MSG_TYPE_ERROR then client_process_error session d p
        else if ty = msg_code SQMP_MSG_TYPE_BYE then client_process_bye env stream session p
        else Inr p)))"

definition client_config :: "env \<Rightarrow> crypto \<Rightarrow> client_state sqmp_quic_config" where
  "client_config env cr = \<lparr>cfg_app_name = Some (ascii ''squimpchat-client''), cfg_idle_timeout_ms = 30000,
     cfg_on_connected = Some client_on_connected, cfg_on_disconnected = Some client_on_disconnected,
     cfg_on_stream_open = None, cfg_on_stream_recv = Some (client_on_stream_recv env cr),
     cfg_on_stream_peer_send_done = None, cfg_on_stream_closed = None\<rparr>"

section \<open>Logging in\<close>

text \<open>A line read by \<^verbatim>\<open>fgets\<close>, as a C string without its final newline.\<close>

definition chomp :: "bytes \<Rightarrow> bytes" where
  "chomp l = (let s = cstr l in if s \<noteq> [] \<and> last s = NL then butlast s else s)"

text \<open>The part of \<^verbatim>\<open>sqmp_login\<close> after both prompts.\<close>

definition login_send ::
  "env \<Rightarrow> crypto \<Rightarrow> addr \<Rightarrow> bytes \<Rightarrow> bytes \<Rightarrow> client_state \<Rightarrow> fault + int \<times> client_state" where
  "login_send env cr stream username password p =
     (let ulen = length username; pw_hash = sha256 cr password; p1 = p\<lparr>rng_calls := Suc (rng_calls p)\<rparr> in
      case x25519_keygen cr (rng_calls p) of
        None \<Rightarrow> Inr (-1, p1)
      | Some (priv, pub) \<Rightarrow>
          bindr (get_session p1 (Some CLIENT_SESSION)) (\<lambda>v.
          bindr (memcpy (zeros SQMP_USERNAME_MAX_LEN) username) (\<lambda>uname.
          bindr (memcpy (s_username v) username) (\<lambda>suname.
          let p2 = put_session CLIENT_SESSION (v\<lparr>s_client_pubkey := pub, s_client_privkey := priv,
                      s_username_len := of_nat ulen, s_username := suname\<rparr>) p1;
              buf = enc_pkt (make_pkt SQMP_MSG_TYPE_AUTH_REQ (s_session_id v))
                @ enc_auth_req \<lparr>auth_req_username_len = of_nat ulen, auth_req_username = uname,
                    auth_req_password_hash = pw_hash, auth_req_pubkey_len = 32, auth_req_public_key = pub\<rparr> in
          bindr (sqmp_stream_send env (Some stream) buf (length buf) p2) (\<lambda>(r, p3).
            if r \<noteq> 0 then Inr (-1, p3) else Inr (0, p3))))))"

text \<open>\<open>input\<close> is what the two \<^verbatim>\<open>fgets\<close> calls can read until the end of the input (without what a
  terminal discards at \<^verbatim>\<open>TCSAFLUSH\<close>); the rest of it is returned too.\<close>

definition sqmp_login ::
  "env \<Rightarrow> crypto \<Rightarrow> addr \<Rightarrow> bytes \<Rightarrow> client_state \<Rightarrow> fault + int \<times> bytes \<times> client_state" where
  "sqmp_login env cr stream input p = (case fgets (SQMP_USERNAME_MAX_LEN + 1) input of
       None \<Rightarrow> Inr (-1, input, p)
     | Some (l1, input1) \<Rightarrow>
         let username = chomp l1 in
         if username = [] \<or> SQMP_USERNAME_MAX_LEN < length username then Inr (-1, input1, p)
         else (case fgets 256 input1 of
             None \<Rightarrow> Inr (-1, input1, p)
           | Some (l2, input2) \<Rightarrow>
               bindr (login_send env cr stream username (chomp l2) p) (\<lambda>(r, p1). Inr (r, input2, p1))))"

section \<open>Sending messages\<close>

datatype line_action = LineEmpty | LineQuit | LineUsage | LineTooLong | LineSend bytes bytes

definition SPACE :: u8 where "SPACE = 32"

text \<open>What the loop of \<^verbatim>\<open>main\<close> does with a line: the checks between \<^verbatim>\<open>readline\<close> and \<^verbatim>\<open>send_chat\<close>.\<close>

definition parse_line :: "bytes \<Rightarrow> line_action" where
  "parse_line line0 =
     (let line = cstr line0 in
      if line = [] then LineEmpty
      else if line = ascii ''quit'' \<or> line = ascii ''exit'' then LineQuit
      else if SPACE \<notin> set line then LineUsage
      else
        let recipient = takeWhile (\<lambda>c. c \<noteq> SPACE) line; msg = tl (dropWhile (\<lambda>c. c \<noteq> SPACE) line) in
        if recipient = [] \<or> msg = [] then LineUsage
        else if SQMP_USERNAME_MAX_LEN < length recipient then LineTooLong
        else LineSend recipient msg)"

text \<open>\<^verbatim>\<open>send_chat\<close> up to \<^verbatim>\<open>sem_timedwait\<close>.\<close>

definition send_chat_request ::
  "env \<Rightarrow> addr \<Rightarrow> bytes \<Rightarrow> 'a sqmp_state_scheme \<Rightarrow> fault + 'a sqmp_state_scheme" where
  "send_chat_request env stream recipient p =
     bindr (get_session p (Some CLIENT_SESSION)) (\<lambda>v.
     bindr (memcpy (zeros SQMP_USERNAME_MAX_LEN) recipient) (\<lambda>uname.
       send_pkt env (Some stream)
         (enc_pkt (make_pkt SQMP_MSG_TYPE_KEY_REQ (s_session_id v))
          @ enc_key_req \<lparr>key_req_username_len = of_nat (length recipient), key_req_username = uname\<rparr>) p))"

text \<open>\<^verbatim>\<open>send_chat\<close> after \<^verbatim>\<open>sem_timedwait\<close> has succeeded.\<close>

definition send_chat_encrypt ::
  "env \<Rightarrow> crypto \<Rightarrow> addr \<Rightarrow> bytes \<Rightarrow> bytes \<Rightarrow> client_state \<Rightarrow> fault + int \<times> client_state" where
  "send_chat_encrypt env cr stream recipient msg p =
     bindr (get_session p (Some CLIENT_SESSION)) (\<lambda>v.
     if s_key_fetch_result v = zeros 32 then Inr (-1, p)
     else
       let (ciphertext, p1) = alloc env p in
       if ciphertext = None then Inr (-1, p1)
       else
         bindr (encrypt_chat cr (rng_calls p1) (s_key_fetch_result v) msg) (\<lambda>r.
         let p2 = p1\<lparr>rng_calls := rng_calls p1 + 2\<rparr> in
         case r of
           None \<Rightarrow> Inr (-1, p2)
         | Some (eph, nonce, ct) \<Rightarrow>
             let (buf, p3) = alloc env p2 in
             if buf = None then Inr (-1, p3)
             else
               bindr (memcpy (zeros SQMP_USERNAME_MAX_LEN) recipient) (\<lambda>rname.
               bindr (memcpy (zeros 256) eph) (\<lambda>ekey.
               let pkt = enc_pkt (make_pkt SQMP_MSG_TYPE_CHAT_SEND (s_session_id v))
                     @ enc_chat \<lparr>chat_name_len = of_nat (length recipient), chat_name = rname,
                         chat_enc_key_len = 32, chat_encrypted_key = ekey, chat_nonce = nonce,
                         chat_ciphertext_len = of_nat (length ct), chat_ciphertext = ct\<rparr> in
               sqmp_stream_send env (Some stream) pkt (length pkt) p3))))"

section \<open>The main thread\<close>

text \<open>What the environment supplies to a step: the content of standard input at login, the line
  readline returns (\<open>None\<close> at its end), a call of readline's event hook with what has been typed so
  far, a signal during a blocking call, the expiry of the 5 s wait, the connection events during the
  final disconnect.\<close>

datatype client_input =
  NoInput | Stdin bytes | Line "bytes option" | Poll bytes | Eintr | KeyTimeout | Events "quic_connection_event list"

text \<open>A wait on a semaphore of the session: \<open>None\<close> while it blocks.\<close>

definition dec_sem ::
  "(sqmp_session \<Rightarrow> nat) \<Rightarrow> ((nat \<Rightarrow> nat) \<Rightarrow> sqmp_session \<Rightarrow> sqmp_session) \<Rightarrow> client_pc \<Rightarrow> client_state \<Rightarrow>
   (fault + client_state) option" where
  "dec_sem sem upd next_pc p = (case get_session p (Some CLIENT_SESSION) of
       Inl e \<Rightarrow> Some (Inl e)
     | Inr v \<Rightarrow>
         if sem v = 0 then None
         else Some (Inr (client_goto next_pc (put_session CLIENT_SESSION (upd (\<lambda>n. n - 1) v) p))))"

text \<open>\<^verbatim>\<open>while (sem_wait(...) == -1 && errno == EINTR && !g_interrupted);\<close> when a signal arrives.\<close>

definition interrupted_wait :: "client_pc \<Rightarrow> client_state \<Rightarrow> (fault + client_state) option" where
  "interrupted_wait next_pc p =
     (if \<not> sig_delivered p then None
      else Some (Inr (client_goto (if g_interrupted p then next_pc else client_pc p) p)))"

text \<open>The end of \<^verbatim>\<open>main\<close>; \<open>None\<close> when \<^verbatim>\<open>sqmp_quic_disconnect\<close> does not return.\<close>

definition client_finish ::
  "env \<Rightarrow> crypto \<Rightarrow> quic_connection_event list \<Rightarrow> client_state \<Rightarrow> (fault + client_state) option" where
  "client_finish env cr evs p =
     (case bindr (if g_conn_alive p then sqmp_send_bye env (Some (c_stream p)) (Some CLIENT_SESSION) p else Inr p)
             (sqmp_quic_disconnect env (client_config env cr) (Some (c_conn p)) evs) of
        Inl e \<Rightarrow> Some (Inl e)
      | Inr None \<Rightarrow> None
      | Inr (Some (evs', p1)) \<Rightarrow>
          Some (bindr (sqmp_quic_destroy (Some (c_ctx p1)) p1) (\<lambda>p2. Inr (client_goto CReturned p2))))"

text \<open>The loop body for a line.\<close>

definition client_line :: "env \<Rightarrow> bytes \<Rightarrow> client_state \<Rightarrow> fault + client_state" where
  "client_line env line p = (case parse_line line of
       LineEmpty \<Rightarrow> Inr (client_goto CPrompt p)
     | LineQuit \<Rightarrow> Inr (client_goto CDisconnect p)
     | LineUsage \<Rightarrow> Inr (client_goto CPrompt (out (ascii ''Usage: <username> <message>'') p))
     | LineTooLong \<Rightarrow> Inr (client_goto CPrompt p)
     | LineSend recipient msg \<Rightarrow>
         bindr (send_chat_request env (c_stream p) recipient
                  (out (ascii ''[to: '' @ recipient @ ascii ''] '' @ msg) p)) (\<lambda>p1.
           Inr (client_goto (CWaitKey recipient msg) p1)))"

text \<open>\<open>client_main env cr pc inp p\<close> is the step of the main thread at \<open>pc\<close>; \<open>None\<close> when it stays
  blocked or has returned.\<close>

fun client_main :: "env \<Rightarrow> crypto \<Rightarrow> client_pc \<Rightarrow> client_input \<Rightarrow> client_state \<Rightarrow> (fault + client_state) option" where
  "client_main env cr CStart inp p = None"
| "client_main env cr CWaitLogin Eintr p = interrupted_wait CLoginCheck p"
| "client_main env cr CWaitLogin inp p = dec_sem s_login_ready s_login_ready_update CLoginCheck p"
| "client_main env cr CLoginCheck inp p =
     Some (Inr (client_goto (if g_interrupted p then CWaitAuth else CLogin) p))"
| "client_main env cr CLogin (Stdin input) p =
     Some (bindr (sqmp_login env cr (c_stream p) input p) (\<lambda>(r, rest, p1). Inr (client_goto CWaitAuth p1)))"
| "client_main env cr CLogin Eintr p =
     (if sig_delivered p then Some (Inr (client_goto CWaitAuth p)) else None)"
| "client_main env cr CLogin inp p = None"
| "client_main env cr CWaitAuth Eintr p = interrupted_wait CAuthChecked p"
| "client_main env cr CWaitAuth inp p = dec_sem s_auth_done s_auth_done_update CAuthChecked p"
| "client_main env cr CAuthChecked inp p =
     Some (bindr (get_session p (Some CLIENT_SESSION)) (\<lambda>v.
       Inr (client_goto (if \<not> g_interrupted p \<and> s_auth_ok v then CPrompt else CDisconnect) p)))"
| "client_main env cr CPrompt inp p =
     Some (Inr (if g_interrupted p then client_goto CDisconnect p
                else client_goto CReadline (p\<lparr>g_readline_active := True\<rparr>)))"
| "client_main env cr CReadline (Line None) p =
     Some (Inr (client_goto CDisconnect (p\<lparr>g_readline_active := False\<rparr>)))"
| "client_main env cr CReadline (Line (Some line)) p =
     Some (client_line env line (p\<lparr>g_readline_active := False\<rparr>))"
| "client_main env cr CReadline (Poll typed) p =
     (let (line, rl_done) = rl_interrupt_hook p typed in
      if rl_done then Some (client_line env line (p\<lparr>g_readline_active := False\<rparr>)) else None)"
| "client_main env cr CReadline inp p = None"
| "client_main env cr (CWaitKey recipient msg) KeyTimeout p = Some (Inr (client_goto CPrompt p))"
| "client_main env cr (CWaitKey recipient msg) Eintr p =
     (if sig_delivered p then Some (Inr (client_goto CPrompt p)) else None)"
| "client_main env cr (CWaitKey recipient msg) inp p =
     (case dec_sem s_key_fetch_sem s_key_fetch_sem_update CPrompt p of
        Some (Inr p1) \<Rightarrow>
          Some (bindr (send_chat_encrypt env cr (c_stream p1) recipient msg p1) (\<lambda>(r, p2). Inr p2))
      | r \<Rightarrow> r)"
| "client_main env cr CDisconnect (Events evs) p = client_finish env cr evs p"
| "client_main env cr CDisconnect inp p = None"
| "client_main env cr CReturned inp p = None"

section \<open>Start-up\<close>

definition CLIENT_ALPN :: bytes where "CLIENT_ALPN = ascii ''squimp''"
definition CLIENT_SERVER_PORT :: u16 where "CLIENT_SERVER_PORT = 4433"

definition hello_pkt :: bytes where
  "hello_pkt = enc_pkt (make_pkt SQMP_MSG_TYPE_HELLO 0)
     @ enc_hello \<lparr>hello_num_versions = 1, hello_versions = 1 # zeros 7, hello_selected_version = 1,
          hello_max_message_size = 65535, hello_reserved = zeros 2\<rparr>"

text \<open>\<^verbatim>\<open>main\<close> up to the first wait. \<open>args\<close> are the arguments after the program name, \<open>evs\<close> the connection
  events MsQuic delivers. \<open>Inr None\<close> is a call that never returns, \<open>Some code\<close> an early return.
  \<open>client_hello\<close> is the part after the connection has been made.\<close>

definition client_hello ::
  "env \<Rightarrow> crypto \<Rightarrow> addr \<Rightarrow> addr \<Rightarrow> quic_connection_event list \<Rightarrow> client_state \<Rightarrow>
   fault + (int option \<times> client_state) option" where
  "client_hello env cr ctx conn evs p =
     bindr (sqmp_conn_set_user_data conn (Some CLIENT_SESSION) (p\<lparr>c_conn := conn\<rparr>)) (\<lambda>p1.
     bindr (sqmp_stream_open env conn p1) (\<lambda>(stream, p2).
       case stream of
         None \<Rightarrow>
           bindr (sqmp_quic_disconnect env (client_config env cr) (Some conn) evs p2) (\<lambda>q. case q of
             None \<Rightarrow> Inr None
           | Some (evs', p3) \<Rightarrow> bindr (sqmp_quic_destroy (Some ctx) p3) (\<lambda>p4. Inr (Some (Some 1, p4))))
       | Some st \<Rightarrow>
           bindr (sqmp_stream_set_user_data st (Some CLIENT_SESSION) (p2\<lparr>c_stream := st\<rparr>)) (\<lambda>p3.
           bindr (send_pkt env (Some st) hello_pkt p3) (\<lambda>p4.
             Inr (Some (None, client_goto CWaitLogin p4))))))"

definition client_boot ::
  "env \<Rightarrow> crypto \<Rightarrow> bytes list \<Rightarrow> quic_connection_event list \<Rightarrow> client_state \<Rightarrow>
   fault + (int option \<times> client_state) option" where
  "client_boot env cr args evs p0 =
     (if length args \<noteq> 1 then Inr (Some (Some 1, p0))
      else
        let host = args ! 0;
            p = (put_session CLIENT_SESSION new_session p0)\<lparr>g_interrupted := False, g_conn_alive := True,
                  g_readline_active := False, client_pc := CStart\<rparr>;
            (ctx, p1) = sqmp_quic_init env (client_config env cr) p in
        case ctx of
          None \<Rightarrow> Inr (Some (Some 1, p1))
        | Some c \<Rightarrow>
            bindr (sqmp_quic_connect env (client_config env cr) c CLIENT_ALPN host CLIENT_SERVER_PORT evs
                     (p1\<lparr>c_ctx := c\<rparr>)) (\<lambda>r. case r of
              None \<Rightarrow> Inr None
            | Some (None, evs', p2) \<Rightarrow> bindr (sqmp_quic_destroy ctx p2) (\<lambda>p3. Inr (Some (Some 1, p3)))
            | Some (Some conn, evs', p2) \<Rightarrow> client_hello env cr c conn evs' p2))"

section \<open>The client as a transition system\<close>

inductive client_step :: "env \<Rightarrow> crypto \<Rightarrow> client_state \<Rightarrow> client_state \<Rightarrow> bool" for env cr where
  main: "client_main env cr (client_pc p) inp p = Some (Inr p') \<Longrightarrow> client_step env cr p p'"
| signal: "client_step env cr p (client_sig_handler p)"
| conn_event: "conn_cb env (client_config env cr) c ev p = Inr p' \<Longrightarrow> client_step env cr p p'"
| stream_event: "stream_cb env (client_config env cr) st ev p = Inr p' \<Longrightarrow> client_step env cr p p'"

inductive client_reach :: "env \<Rightarrow> crypto \<Rightarrow> client_state \<Rightarrow> bool" for env cr where
  start: "client_boot env cr args evs p0 = Inr (Some (None, p)) \<Longrightarrow> client_reach env cr p"
| step: "client_reach env cr p \<Longrightarrow> client_step env cr p p' \<Longrightarrow> client_reach env cr p'"

end
