(* ===== verification/Sqmp_Client_Chat.thy ===== *)
theory Sqmp_Client_Chat
  imports Sqmp_Client
begin

text \<open>
  What the client does with packets, input lines and credentials: the packets it sends, the effect
  of those it receives, runs of the main thread interleaved with arriving data, and the behaviours
  that go wrong (packets in one buffer, late key responses, failed logins, long names).
\<close>

section \<open>The client's packets\<close>

definition key_req_pkt :: "u32 \<Rightarrow> bytes \<Rightarrow> bytes" where
  "key_req_pkt sid name = enc_pkt (make_pkt SQMP_MSG_TYPE_KEY_REQ sid)
     @ enc_key_req \<lparr>key_req_username_len = of_nat (length name), key_req_username = name @ zeros (32 - length name)\<rparr>"

definition chat_msg :: "bytes \<Rightarrow> bytes \<Rightarrow> bytes \<Rightarrow> bytes \<Rightarrow> sqmp_msg_chat" where
  "chat_msg name eph nonce ct = \<lparr>chat_name_len = of_nat (length name), chat_name = name @ zeros (32 - length name),
     chat_enc_key_len = 32, chat_encrypted_key = eph @ zeros (256 - length eph), chat_nonce = nonce,
     chat_ciphertext_len = of_nat (length ct), chat_ciphertext = ct\<rparr>"

definition chat_send_pkt :: "u32 \<Rightarrow> bytes \<Rightarrow> bytes \<Rightarrow> bytes \<Rightarrow> bytes \<Rightarrow> bytes" where
  "chat_send_pkt sid name eph nonce ct =
     enc_pkt (make_pkt SQMP_MSG_TYPE_CHAT_SEND sid) @ enc_chat (chat_msg name eph nonce ct)"

lemma drop_zeros [simp]: "drop n (zeros m) = zeros (m - n)"
  by (simp add: zeros_def)

lemma wf_chat_msg:
  "length name \<le> 32 \<Longrightarrow> length eph \<le> 256 \<Longrightarrow> length nonce = 12 \<Longrightarrow> wf_chat (chat_msg name eph nonce ct)"
  by (simp add: wf_chat_def chat_msg_def)

lemma unat_small_length: "length name \<le> 32 \<Longrightarrow> unat (of_nat (length name) :: u8) = length name"
  by (simp add: unat_of_nat)

lemma chat_msg_simps [simp]:
  "chat_enc_key_len (chat_msg name eph nonce ct) = 32" "chat_nonce (chat_msg name eph nonce ct) = nonce"
  "chat_ciphertext (chat_msg name eph nonce ct) = ct"
  "chat_ciphertext_len (chat_msg name eph nonce ct) = of_nat (length ct)"
  "chat_encrypted_key (chat_msg name eph nonce ct) = eph @ zeros (256 - length eph)"
  "chat_name_len (chat_msg name eph nonce ct) = of_nat (length name)"
  "chat_name (chat_msg name eph nonce ct) = name @ zeros (32 - length name)"
  by (simp_all add: chat_msg_def)

lemma send_chat_request_live:
  assumes "healthy env" and "live_stream p st" and "sessions p CLIENT_SESSION = Some v" and "length recipient \<le> 32"
  shows "send_chat_request env st recipient p = Inr (after_send st (key_req_pkt (s_session_id v) recipient) p)"
  using assms by (simp add: send_chat_request_def send_pkt_live key_req_pkt_def enc_key_req_def)

lemma send_chat_encrypt_live:
  assumes "healthy env" and "live_stream p st" and "sessions p CLIENT_SESSION = Some v"
    and "s_key_fetch_result v \<noteq> zeros 32" and "length recipient \<le> 32" and "length msg + 16 < 2 ^ 31"
    and "crypto_laws cr" and "encrypt_chat cr (rng_calls p) (s_key_fetch_result v) msg = Inr (Some (eph, nonce, ct))"
  shows "send_chat_encrypt env cr st recipient msg p = Inr (0,
    after_send st (chat_send_pkt (s_session_id v) recipient eph nonce ct)
      (p\<lparr>rng_calls := Suc (Suc (rng_calls p)), qs_allocs := Suc (Suc (qs_allocs p))\<rparr>))"
proof -
  note len = encrypt_chat_lengths [OF assms(7) int_sized_def [THEN iffD2, OF assms(6)] assms(8)]
  have live: "live_stream (p\<lparr>rng_calls := k, qs_allocs := n\<rparr>) st" for n k
    using assms(2) by (simp add: live_stream_def stream_chain_def)
  show ?thesis
    using assms(1,3-6,8) len live
    by (simp add: send_chat_encrypt_def alloc_healthy Let_def sqmp_stream_send_live chat_send_pkt_def chat_msg_def
        enc_chat_def)
qed

section \<open>Packets the client receives\<close>

lemma client_recv_type:
  assumes "12 \<le> n" and "sqmp_stream_get_user_data st p = Inr s"
  shows "client_on_stream_recv env cr st (enc_pkt (make_pkt SQMP_MSG_TYPE_KEY_RESP sid) @ d) n p
      = sqmp_process_key_resp s (enc_pkt (make_pkt SQMP_MSG_TYPE_KEY_RESP sid) @ d) p"
    and "client_on_stream_recv env cr st (enc_pkt (make_pkt SQMP_MSG_TYPE_CHAT_DELIVER sid) @ d) n p
      = client_process_chat_deliver env cr s (enc_pkt (make_pkt SQMP_MSG_TYPE_CHAT_DELIVER sid) @ d) p"
    and "client_on_stream_recv env cr st (enc_pkt (make_pkt SQMP_MSG_TYPE_HELLO_ACK sid) @ d) n p
      = sqmp_process_hello_ack s (enc_pkt (make_pkt SQMP_MSG_TYPE_HELLO_ACK sid) @ d) p"
    and "client_on_stream_recv env cr st (enc_pkt (make_pkt SQMP_MSG_TYPE_AUTH_RESP sid) @ d) n p
      = sqmp_process_auth_resp s (enc_pkt (make_pkt SQMP_MSG_TYPE_AUTH_RESP sid) @ d) p"
  using assms by (simp_all add: client_on_stream_recv_def pkt_reads)

lemma client_recv_key_resp:
  assumes "12 \<le> n" and "sqmp_stream_get_user_data st p = Inr (Some a)" and "sessions p a = Some v"
    and "wf_session v" and "length name \<le> 32" and "length key = 32"
  shows "client_on_stream_recv env cr st (key_resp_pkt sid name key @ r) n p = Inr (put_session a
    (v\<lparr>s_key_fetch_result := key, s_key_fetch_sem := Suc (s_key_fetch_sem v)\<rparr>) p)"
  using assms
  by (simp add: client_recv_type key_resp_pkt_def sqmp_process_key_resp_def key_resp_reads wf_key_resp_def
      wf_session_def)

lemma rd_str_chat_name:
  assumes "wf_pkt h" and "wf_chat m" and "n \<le> 32"
  shows "rd_str (enc_pkt h @ enc_chat m @ r) 13 n = Inr (cstr (take n (chat_name m)))"
proof -
  obtain q where q: "drop 13 (enc_pkt h @ enc_chat m @ r) = chat_name m @ q"
    using drop_pkt_chat [OF assms(1), of m r] by blast
  have "13 + n \<le> length (enc_pkt h @ enc_chat m @ r)"
    using length_enc_pkt [OF assms(1)] length_enc_chat [OF assms(2)] assms(3) by simp
  moreover have "take n (drop 13 (enc_pkt h @ enc_chat m @ r)) = take n (chat_name m)"
    unfolding q using assms(2,3) by (simp add: wf_chat_def)
  ultimately show ?thesis by (simp add: rd_str_def del: length_append drop_append)
qed

lemma client_recv_chat_deliver:
  assumes "healthy env" and "12 \<le> n" and "sqmp_stream_get_user_data st p = Inr (Some a)" and "sessions p a = Some v"
    and "s_state v = SQMP_SESSION_STATE_CONN_ESTABLISHED" and "length sender \<le> 32" and "length eph = 32"
    and "length nonce = 12" and "16 \<le> length ct" and "length ct < 2 ^ 32"
    and "decrypt_chat cr (s_client_privkey v) eph nonce ct = Some msg"
  shows "client_on_stream_recv env cr st (chat_deliver_pkt sid sender (chat_msg name eph nonce ct) @ r) n p
    = Inr (out (cstr msg) ((out (ascii ''[from: '' @ cstr sender @ ascii ''] '') p)\<lparr>qs_allocs := Suc (qs_allocs p)\<rparr>))"
proof -
  let ?m = "(chat_msg name eph nonce ct)\<lparr>chat_name_len := of_nat (length sender),
      chat_name := sender @ zeros (32 - length sender)\<rparr>"
  let ?d = "enc_pkt (make_pkt SQMP_MSG_TYPE_CHAT_DELIVER sid) @ enc_chat ?m @ r"
  have wf: "wf_chat ?m" using assms(6-8) by (simp add: wf_chat_def)
  have "rd_str ?d 13 (length sender) = Inr (cstr sender)"
    using rd_str_chat_name [OF wf_make_pkt wf assms(6)] by simp
  moreover have "\<not> (of_nat (length ct) :: u32) < 16" "unat (of_nat (length ct) :: u32) = length ct"
    using assms(9,10) by (simp_all add: word_less_nat_alt unat_of_nat)
  ultimately show ?thesis
    using assms(1-5,7,11) unat_small_length [OF assms(6)]
    by (simp add: chat_deliver_pkt_def client_recv_type client_process_chat_deliver_def chat_reads [OF _ wf]
        alloc_healthy Let_def)
qed

section \<open>One packet per buffer\<close>

lemma rd_str_extend:
  assumes "rd_str d off n = Inr s"
  shows "rd_str (d @ extra) off n = Inr s"
proof (cases "0 \<in> set (take n (drop off d))")
  case True
  then have "cstr (take n (drop off d) @ b) = cstr (take n (drop off d))" for b
    by (auto simp: cstr_def takeWhile_append1)
  then show ?thesis using assms True by (simp add: rd_str_def Let_def)
next
  case False
  then have "off + n \<le> length d \<or> n = 0" "s = cstr (take n (drop off d))"
    using assms by (auto simp: rd_str_def Let_def split: if_splits)
  then show ?thesis by (auto simp: rd_str_def Let_def)
qed

lemmas get_extend = rd_extend rd_str_extend

lemma bindr_mono:
  assumes "bindr m f = Inr y" and "\<And>x. m = Inr x \<Longrightarrow> m' = Inr x" and "\<And>x. m = Inr x \<Longrightarrow> f x = Inr y \<Longrightarrow> f' x = Inr y"
  shows "bindr m' f' = Inr y"
  using assms by (auto simp: bindr_eq_Inr_iff)

lemma first_packet_handlers:
  "sqmp_process_hello_ack s d p = Inr p' \<Longrightarrow> sqmp_process_hello_ack s (d @ extra) p = Inr p'"
  "sqmp_process_auth_resp s d p = Inr p' \<Longrightarrow> sqmp_process_auth_resp s (d @ extra) p = Inr p'"
  "sqmp_process_key_resp s d p = Inr p' \<Longrightarrow> sqmp_process_key_resp s (d @ extra) p = Inr p'"
  "client_process_error s d q = Inr q' \<Longrightarrow> client_process_error s (d @ extra) q = Inr q'"
  "client_process_chat_deliver env cr s d q = Inr q' \<Longrightarrow> client_process_chat_deliver env cr s (d @ extra) q = Inr q'"
  unfolding sqmp_process_hello_ack_def sqmp_process_auth_resp_def sqmp_process_key_resp_def
    client_process_error_def client_process_chat_deliver_def get_defs Let_def
  by (auto elim!: bindr_mono split: if_splits prod.splits) (rule get_extend, assumption)+

text \<open>A logged-in client: user \<^verbatim>\<open>b\<close>, private key from the library's first key pair, on stream 3.\<close>

definition client_session :: sqmp_session where
  "client_session = (proto_session SQMP_SESSION_STATE_CONN_ESTABLISHED)\<lparr>s_auth_ok := True,
     s_client_pubkey := replicate 32 1, s_client_privkey := replicate 32 1\<rparr>"

definition client_demo :: client_state where
  "client_demo = \<lparr>
     qs_ctxs = [1 \<mapsto> \<lparr>ctx_reg = 1, ctx_config = 2, ctx_listener = 0, ctx_idle_timeout_ms = 0\<rparr>],
     qs_conns = [2 \<mapsto> \<lparr>conn_handle = 7, conn_ctx = 1, conn_connect_sem = 0, conn_closed_sem = 0,
       conn_connected = True, conn_is_server = False, conn_user_data = Some CLIENT_SESSION\<rparr>],
     qs_streams = [3 \<mapsto> \<lparr>stream_handle = 9, stream_conn = 2, stream_user_data = Some CLIENT_SESSION\<rparr>],
     qs_sendbufs = Map.empty, qs_allocs = 10, qs_calls = [],
     sessions = [CLIENT_SESSION \<mapsto> client_session], g_next_session_id = 1, g_auth_queue_sem = 0,
     g_auth_queue_head = None, g_auth_queue_tail = None, g_registry = g_registry_init, console = [],
     g_interrupted = False, g_conn_alive = True, g_readline_active = False, rng_calls = 4,
     c_ctx = 1, c_conn = 2, c_stream = 3, client_pc = CPrompt, sig_delivered = False\<rparr>"

lemma client_session_simps [simp]:
  "s_state client_session = SQMP_SESSION_STATE_CONN_ESTABLISHED" "s_session_id client_session = 6"
  "s_auth_ok client_session" "s_client_privkey client_session = replicate 32 1" "wf_session client_session"
  "s_key_fetch_sem client_session = 0" "s_auth_done client_session = 0" "s_login_ready client_session = 0"
  "s_key_fetch_result client_session = zeros 32"
  by (simp_all add: client_session_def proto_session_def wf_session_def new_session_def)

lemma client_demo_simps [simp]:
  "sessions client_demo CLIENT_SESSION = Some client_session" "live_stream client_demo 3"
  "sqmp_stream_get_user_data 3 client_demo = Inr (Some CLIENT_SESSION)" "console client_demo = []"
  "sent_packets client_demo = []" "handle_of client_demo 3 = 9" "rng_calls client_demo = 4"
  "c_stream client_demo = 3" "client_pc client_demo = CPrompt" "\<not> g_interrupted client_demo" "\<not> sig_delivered client_demo"
  by (simp_all add: client_demo_def sqmp_stream_get_user_data_def live_stream_def stream_chain_def sent_packets_def
      handle_of_def List.map_filter_def)

lemma demo_encrypts:
  "encrypt_chat demo_crypto 4 (replicate 32 1) [104, 105]
     = Inr (Some (replicate 32 5, replicate 12 5, [108, 109, 2] @ zeros 15))"
  by (simp add: encrypt_chat_def demo_crypto_def demo_tag_def zip_replicate)

lemma demo_decrypts:
  "decrypt_chat demo_crypto (replicate 32 1) (replicate 32 5) (replicate 12 5) ([108, 109, 2] @ zeros 15) = Some [104, 105]"
  using decrypt_encrypt_chat [OF demo_crypto_laws _ _ demo_encrypts, of 0] by (simp add: demo_crypto_def int_sized_def)

text \<open>C24: the client reads one packet per buffer. Whatever follows a packet in the buffer that a
  \<^verbatim>\<open>RECEIVE\<close> event delivers has no effect: when the packet alone is handled without a fault, the
  packet with other packets behind it is handled in exactly the same way, and those are lost. A
  QUIC stream is a byte stream, so two messages that the server sends in a row may arrive so.\<close>

theorem only_first_packet_processed:
  assumes "client_on_stream_recv env cr st d n p = Inr p'" and "SQMP_PKT_FIXED_LEN \<le> n" and "n \<le> m"
  shows "client_on_stream_recv env cr st (d @ extra) m p = Inr p'"
  using assms unfolding client_on_stream_recv_def get_msg_type_def
  by (auto elim!: bindr_mono intro: rd8_extend first_packet_handlers split: if_splits)

theorem only_first_packet_processed_witness:
  "let pkt = chat_deliver_pkt 6 [97] (chat_msg [98] (replicate 32 5) (replicate 12 5) ([108, 109, 2] @ zeros 15));
       r = client_on_stream_recv env_ok demo_crypto 3 (pkt @ pkt @ [0]) (length (pkt @ pkt)) client_demo
   in \<exists>p'. r = Inr p' \<and> console p' = [ascii ''[from: '' @ [97] @ ascii ''] '', [104, 105]]"
proof -
  let ?m = "chat_msg [98] (replicate 32 5) (replicate 12 5) ([108, 109, 2] @ zeros 15)"
  let ?pkt = "chat_deliver_pkt 6 [97] ?m"
  have len: "12 \<le> length ?pkt" by (simp add: chat_deliver_pkt_def)
  obtain p' where p': "client_on_stream_recv env_ok demo_crypto 3 ?pkt (length ?pkt) client_demo = Inr p'"
    "console p' = [ascii ''[from: '' @ [97] @ ascii ''] '', [104, 105]]"
    using client_recv_chat_deliver [OF healthy_env_ok len, of 3 client_demo CLIENT_SESSION client_session "[97]"
        "replicate 32 5" "replicate 12 5" "[108, 109, 2] @ zeros 15" demo_crypto "[104, 105]" 6 "[98]" "[]"]
      demo_decrypts
    by auto
  show ?thesis
    using only_first_packet_processed [OF p'(1), of "length (?pkt @ ?pkt)" "?pkt @ [0]"] len p'(2) by (simp add: Let_def)
qed

section \<open>Input lines\<close>

text \<open>The lines that make the client send a message.\<close>

lemma parse_line_send_iff:
  assumes "0 \<notin> set line"
  shows "parse_line line = LineSend r m \<longleftrightarrow>
    line = r @ SPACE # m \<and> SPACE \<notin> set r \<and> r \<noteq> [] \<and> m \<noteq> [] \<and> length r \<le> 32"
proof
  assume l: "parse_line line = LineSend r m"
  then have sp: "SPACE \<in> set line" "r = takeWhile (\<lambda>c. c \<noteq> SPACE) line" "m = tl (dropWhile (\<lambda>c. c \<noteq> SPACE) line)"
    and ne: "r \<noteq> []" "m \<noteq> []" "length r \<le> 32"
    using assms by (auto simp: parse_line_def Let_def split: if_splits)
  obtain x b where x: "dropWhile (\<lambda>c. c \<noteq> SPACE) line = x # b" using ne(2) sp(3) by (cases "dropWhile (\<lambda>c. c \<noteq> SPACE) line") auto
  then have "x = SPACE" using hd_dropWhile [of "\<lambda>c. c \<noteq> SPACE" line] by simp
  with x sp have "line = r @ SPACE # m" using takeWhile_dropWhile_id [of "\<lambda>c. c \<noteq> SPACE" line] by simp
  moreover have "SPACE \<notin> set r" using sp(2) by (auto dest: set_takeWhileD)
  ultimately show "line = r @ SPACE # m \<and> SPACE \<notin> set r \<and> r \<noteq> [] \<and> m \<noteq> [] \<and> length r \<le> 32" using ne by blast
next
  assume l: "line = r @ SPACE # m \<and> SPACE \<notin> set r \<and> r \<noteq> [] \<and> m \<noteq> [] \<and> length r \<le> 32"
  then have "takeWhile (\<lambda>c. c \<noteq> SPACE) line = r" "dropWhile (\<lambda>c. c \<noteq> SPACE) line = SPACE # m"
    by (auto simp: takeWhile_append dropWhile_append)
  moreover have sp: "SPACE \<in> set line" using l by simp
  moreover have "SPACE \<notin> set (ascii ''quit'')" "SPACE \<notin> set (ascii ''exit'')" by (simp_all add: ascii_def SPACE_def)
  then have "line \<noteq> ascii ''quit''" "line \<noteq> ascii ''exit''" using sp by metis+
  ultimately show "parse_line line = LineSend r m" using l assms by (simp add: parse_line_def)
qed

lemma client_line_send:
  assumes "0 \<notin> set (r @ m)" and "SPACE \<notin> set r" and "r \<noteq> []" and "m \<noteq> []" and "length r \<le> 32"
    and "healthy env" and "live_stream p (c_stream p)" and "sessions p CLIENT_SESSION = Some v"
  shows "client_line env (r @ SPACE # m) p = Inr (client_goto (CWaitKey r m)
    (after_send (c_stream p) (key_req_pkt (s_session_id v) r) (out (ascii ''[to: '' @ r @ ascii ''] '' @ m) p)))"
proof -
  have "parse_line (r @ SPACE # m) = LineSend r m"
    using assms(1-5) by (subst parse_line_send_iff) (simp_all add: SPACE_def)
  moreover have "live_stream (out t p) (c_stream p)" for t
    using assms(7) by (simp add: live_stream_def stream_chain_def)
  ultimately show ?thesis
    using assms(5,6,8) by (simp add: client_line_def send_chat_request_live)
qed

section \<open>Runs\<close>

text \<open>A run of the client under a list of events: a step of the main thread, data that arrives on a
  stream, a signal. \<open>None\<close> when a step of the main thread is blocked.\<close>

datatype client_event = Main client_input | Recv addr bytes | Signal

fun client_event_step ::
  "env \<Rightarrow> crypto \<Rightarrow> client_event \<Rightarrow> client_state \<Rightarrow> (fault + client_state) option" where
  "client_event_step env cr (Main inp) p = client_main env cr (client_pc p) inp p"
| "client_event_step env cr (Recv st d) p =
     Some (stream_cb env (client_config env cr) st (STREAM_RECEIVE (of_nat (length d)) [d]) p)"
| "client_event_step env cr Signal p = Some (Inr (client_sig_handler p))"

fun client_run :: "env \<Rightarrow> crypto \<Rightarrow> client_event list \<Rightarrow> client_state \<Rightarrow> (fault + client_state) option" where
  "client_run env cr [] p = Some (Inr p)"
| "client_run env cr (e # es) p = (case client_event_step env cr e p of
       Some (Inr p') \<Rightarrow> client_run env cr es p' | r \<Rightarrow> r)"

lemma client_run_append:
  "client_run env cr es p = Some (Inr q) \<Longrightarrow> client_run env cr (es @ es') p = client_run env cr es' q"
  by (induction es arbitrary: p) (auto split: option.splits sum.splits)

lemma client_run_ConsI:
  "client_run env cr [e] p = Some (Inr q) \<Longrightarrow> client_run env cr (e # es) p = client_run env cr es q"
  using client_run_append [of env cr "[e]"] by simp

lemma client_run_steps: "client_run env cr es p = Some (Inr q) \<Longrightarrow> (client_step env cr)\<^sup>*\<^sup>* p q"
proof (induction es arbitrary: p)
  case Nil
  then show ?case by simp
next
  case (Cons e es)
  then obtain p' where p': "client_event_step env cr e p = Some (Inr p')" "(client_step env cr)\<^sup>*\<^sup>* p' q"
    by (auto split: option.splits sum.splits)
  have "client_step env cr p p'"
    using p'(1) by (cases e) (auto intro: client_step.intros)
  then show ?case using p'(2) by simp
qed

text \<open>A client that is up: its session, its stream, no interrupt.\<close>

definition client_at :: "client_state \<Rightarrow> client_pc \<Rightarrow> sqmp_session \<Rightarrow> bool" where
  "client_at p pc v \<longleftrightarrow> client_pc p = pc \<and> sessions p CLIENT_SESSION = Some v \<and> wf_session v
     \<and> \<not> g_interrupted p \<and> live_stream p (c_stream p)
     \<and> sqmp_stream_get_user_data (c_stream p) p = Inr (Some CLIENT_SESSION)"

text \<open>\<open>p'\<close> comes after \<open>p\<close> and the client has sent the packets \<open>pkts\<close> on its stream in between.\<close>

definition client_sends :: "client_state \<Rightarrow> client_state \<Rightarrow> bytes list \<Rightarrow> bool" where
  "client_sends p p' pkts \<longleftrightarrow> c_stream p' = c_stream p \<and> handle_of p' (c_stream p) = handle_of p (c_stream p)
     \<and> sent_packets p' = sent_packets p @ map (Pair (handle_of p (c_stream p))) pkts"

lemma client_sends_trans:
  "client_sends p q a \<Longrightarrow> client_sends q r b \<Longrightarrow> client_sends p r (a @ b)"
  by (simp add: client_sends_def)

lemma client_goto_simps [simp]:
  "client_pc (client_goto pc p) = pc" "sessions (client_goto pc p) = sessions p"
  "g_interrupted (client_goto pc p) = g_interrupted p" "c_stream (client_goto pc p) = c_stream p"
  "rng_calls (client_goto pc p) = rng_calls p" "console (client_goto pc p) = console p"
  "qs_streams (client_goto pc p) = qs_streams p" "qs_conns (client_goto pc p) = qs_conns p"
  "qs_ctxs (client_goto pc p) = qs_ctxs p" "qs_calls (client_goto pc p) = qs_calls p"
  "\<not> sig_delivered (client_goto pc p)"
  by (simp_all add: client_goto_def)

lemma live_stream_iff:
  "live_stream p st \<longleftrightarrow> (\<exists>x c q. qs_streams p st = Some x \<and> qs_conns p (stream_conn x) = Some c
     \<and> qs_ctxs p (conn_ctx c) = Some q)"
  by (auto simp: live_stream_def stream_chain_def bindr_eq_Inr_iff deref_eq_Inr_iff)

lemma client_recv_event:
  assumes "healthy env" and "live_stream p st" and "length d < 2 ^ 32"
  shows "client_event_step env cr (Recv st d) p
    = Some (client_on_stream_recv env cr st (d @ [0]) (length d) (p\<lparr>qs_allocs := Suc (qs_allocs p)\<rparr>))"
proof -
  obtain chain where chain: "stream_chain p (Some st) = Inr chain" using assms(2) by (auto simp: live_stream_def)
  have len: "unat (of_nat (length d) :: u64) = length (concat [d])" using assms(3) by (simp add: unat_of_nat)
  have "stream_cb env (client_config env cr) st (STREAM_RECEIVE (of_nat (length d)) [d]) p
      = stream_receive env (client_config env cr) st (of_nat (length d)) [d] p"
    using chain by (cases chain) (simp add: stream_cb_def)
  also have "\<dots> = client_on_stream_recv env cr st (d @ [0]) (length d) (p\<lparr>qs_allocs := Suc (qs_allocs p)\<rparr>)"
    using stream_receive_flat [of env p "client_config env cr" "client_on_stream_recv env cr", OF _ _ len] assms
    by (simp add: healthy_def client_config_def)
  finally show ?thesis by simp
qed

lemma run_key_timeout:
  assumes "client_at p (CWaitKey x m) v"
  shows "\<exists>p'. client_run env cr [Main KeyTimeout] p = Some (Inr p') \<and> client_at p' CPrompt v
    \<and> client_sends p p' [] \<and> rng_calls p' = rng_calls p"
  using assms
  by (simp add: client_at_def client_sends_def live_stream_iff handle_of_def sent_packets_def
      sqmp_stream_get_user_data_def)

lemma run_key_resp:
  assumes "healthy env" and "client_at p pc v" and "length name \<le> 32" and "length key = 32"
  shows "\<exists>p'. client_run env cr [Recv (c_stream p) (key_resp_pkt sid name key)] p = Some (Inr p')
    \<and> client_at p' pc (v\<lparr>s_key_fetch_result := key, s_key_fetch_sem := Suc (s_key_fetch_sem v)\<rparr>)
    \<and> client_sends p p' [] \<and> rng_calls p' = rng_calls p"
proof -
  let ?v = "v\<lparr>s_key_fetch_result := key, s_key_fetch_sem := Suc (s_key_fetch_sem v)\<rparr>"
  let ?p0 = "p\<lparr>qs_allocs := Suc (qs_allocs p)\<rparr>" and ?d = "key_resp_pkt sid name key"
  have at: "live_stream p (c_stream p)" "sessions p CLIENT_SESSION = Some v" "wf_session v"
    "sqmp_stream_get_user_data (c_stream p) p = Inr (Some CLIENT_SESSION)"
    using assms(2) by (simp_all add: client_at_def)
  have len: "12 \<le> length ?d" "length ?d < 2 ^ 32" using assms(3,4) by (simp_all add: key_resp_pkt_def enc_key_resp_def)
  have "client_run env cr [Recv (c_stream p) ?d] p = Some (Inr (put_session CLIENT_SESSION ?v ?p0))"
    using client_recv_event [OF assms(1) at(1) len(2), of cr]
      client_recv_key_resp [OF len(1), of "c_stream p" ?p0 CLIENT_SESSION v name key env cr sid "[0]"] at assms(3,4)
    by (simp add: sqmp_stream_get_user_data_def)
  moreover have "wf_session ?v" using at(3) assms(4) by (simp add: wf_session_def)
  ultimately show ?thesis
    using assms(2)
    by (simp add: client_at_def client_sends_def live_stream_iff handle_of_def sent_packets_def
        sqmp_stream_get_user_data_def) (simp add: put_session_def)
qed

lemma run_line:
  assumes "healthy env" and "client_at p CPrompt v"
    and "0 \<notin> set (r @ m)" and "SPACE \<notin> set r" and "r \<noteq> []" and "m \<noteq> []" and "length r \<le> 32"
  shows "\<exists>p'. client_run env cr [Main NoInput, Main (Line (Some (r @ SPACE # m)))] p = Some (Inr p')
    \<and> client_at p' (CWaitKey r m) v \<and> client_sends p p' [key_req_pkt (s_session_id v) r] \<and> rng_calls p' = rng_calls p"
proof -
  define p1 where "p1 = p\<lparr>g_readline_active := True, client_pc := CReadline, sig_delivered := False, g_readline_active := False\<rparr>"
  have at: "client_pc p = CPrompt" "\<not> g_interrupted p" "sessions p CLIENT_SESSION = Some v" "live_stream p (c_stream p)"
    using assms(2) by (simp_all add: client_at_def)
  have f: "qs_streams p1 = qs_streams p" "qs_conns p1 = qs_conns p" "qs_ctxs p1 = qs_ctxs p" "qs_calls p1 = qs_calls p"
    "c_stream p1 = c_stream p" "sessions p1 = sessions p" "g_interrupted p1 = g_interrupted p" "rng_calls p1 = rng_calls p"
    by (simp_all add: p1_def)
  have live: "live_stream p1 (c_stream p1)" using at(4) by (simp add: live_stream_iff f)
  have "client_run env cr [Main NoInput, Main (Line (Some (r @ SPACE # m)))] p
      = Some (client_line env (r @ SPACE # m) p1)"
    using at by (simp add: client_goto_def p1_def split: sum.split)
  also have "client_line env (r @ SPACE # m) p1 = Inr (client_goto (CWaitKey r m)
    (after_send (c_stream p1) (key_req_pkt (s_session_id v) r) (out (ascii ''[to: '' @ r @ ascii ''] '' @ m) p1)))"
    using client_line_send [OF assms(3-7,1) live] at(3) f(6) by simp
  finally show ?thesis
    using assms(2) f
    by (simp add: client_at_def client_sends_def live_stream_iff handle_of_def sent_packets_def
        sqmp_stream_get_user_data_def after_send_def List.map_filter_def) (simp add: out_def)
qed

lemma run_encrypt:
  assumes "healthy env" and "crypto_laws cr" and "client_at p (CWaitKey r m) v" and "s_key_fetch_sem v = Suc k"
    and "s_key_fetch_result v \<noteq> zeros 32" and "length r \<le> 32" and "length m + 16 < 2 ^ 31"
    and "encrypt_chat cr (rng_calls p) (s_key_fetch_result v) m = Inr (Some (eph, nonce, ct))"
  shows "\<exists>p'. client_run env cr [Main NoInput] p = Some (Inr p') \<and> client_at p' CPrompt (v\<lparr>s_key_fetch_sem := k\<rparr>)
    \<and> client_sends p p' [chat_send_pkt (s_session_id v) r eph nonce ct]"
proof -
  let ?v = "v\<lparr>s_key_fetch_sem := k\<rparr>"
  define p1 where "p1 = client_goto CPrompt (put_session CLIENT_SESSION ?v p)"
  have at: "client_pc p = CWaitKey r m" "sessions p CLIENT_SESSION = Some v" "live_stream p (c_stream p)"
    using assms(3) by (simp_all add: client_at_def)
  have f: "qs_streams p1 = qs_streams p" "qs_conns p1 = qs_conns p" "qs_ctxs p1 = qs_ctxs p" "qs_calls p1 = qs_calls p"
    "c_stream p1 = c_stream p" "sessions p1 CLIENT_SESSION = Some ?v" "g_interrupted p1 = g_interrupted p"
    "rng_calls p1 = rng_calls p" "client_pc p1 = CPrompt"
    by (simp_all add: p1_def) (simp_all add: put_session_def)
  have live: "live_stream p1 (c_stream p1)" using at(3) by (simp add: live_stream_iff f)
  have upd: "s_key_fetch_sem_update (\<lambda>n. n - 1) v = ?v" using assms(4) by (cases v) simp
  have dec: "dec_sem s_key_fetch_sem s_key_fetch_sem_update CPrompt p = Some (Inr p1)"
    using at assms(4) unfolding dec_sem_def p1_def upd [symmetric] by simp
  let ?q = "p1\<lparr>rng_calls := Suc (Suc (rng_calls p1)), qs_allocs := Suc (Suc (qs_allocs p1))\<rparr>"
  have "send_chat_encrypt env cr (c_stream p1) r m p1 = Inr (0,
    after_send (c_stream p1) (chat_send_pkt (s_session_id v) r eph nonce ct) ?q)"
    using send_chat_encrypt_live [OF assms(1) live f(6) _ assms(6,7,2), of eph nonce ct] assms(5,8) f(8) by simp
  then have "client_run env cr [Main NoInput] p =
      Some (Inr (after_send (c_stream p1) (chat_send_pkt (s_session_id v) r eph nonce ct) ?q))"
    using at dec by simp
  moreover have "wf_session ?v" using assms(3) by (simp add: client_at_def wf_session_def)
  ultimately show ?thesis
    using assms(3) f
    by (simp add: client_at_def client_sends_def live_stream_iff handle_of_def sent_packets_def
        sqmp_stream_get_user_data_def after_send_def List.map_filter_def)
qed

lemma client_at_demo: "client_at (client_demo\<lparr>client_pc := pc\<rparr>) pc client_session"
  by (simp add: client_at_def live_stream_iff)
     (simp add: client_demo_def sqmp_stream_get_user_data_def)

lemma client_demo_pc [simp]:
  "rng_calls (client_demo\<lparr>client_pc := pc\<rparr>) = 4" "c_stream (client_demo\<lparr>client_pc := pc\<rparr>) = 3"
  by (simp_all add: client_demo_def)

text \<open>C23: a key response that arrives too late is used for another user. The client waits for the
  key of user \<open>x\<close> and gives up after 5 s; then the response arrives, and the user sends \<open>m\<close> to
  \<open>y\<close>. The client asks for the key of \<open>y\<close>, but does not wait for the answer: the semaphore
  still counts the late response. It encrypts \<open>m\<close> under the key of \<open>x\<close> and sends it to
  \<open>y\<close>, so that only \<open>x\<close>'s private key decrypts it.\<close>

theorem late_key_response_misused:
  assumes "healthy env" and "crypto_laws cr" and "client_at p (CWaitKey x m0) v"
    and "length x \<le> 32" and "x25519_keygen cr k = Some (priv_x, key_x)" and "key_x \<noteq> zeros 32"
    and "0 \<notin> set (y @ m)" and "SPACE \<notin> set y" and "y \<noteq> []" and "m \<noteq> []" and "length y \<le> 32"
    and "length m + 16 < 2 ^ 31"
    and "encrypt_chat cr (rng_calls p) key_x m = Inr (Some (eph, nonce, ct))"
  shows "\<exists>p'. client_run env cr
      [Main KeyTimeout, Recv (c_stream p) (key_resp_pkt sid x key_x),
       Main NoInput, Main (Line (Some (y @ SPACE # m))), Main NoInput] p = Some (Inr p')
    \<and> client_sends p p' [key_req_pkt (s_session_id v) y, chat_send_pkt (s_session_id v) y eph nonce ct]
    \<and> decrypt_chat cr priv_x eph nonce ct = Some m"
proof -
  have key: "length key_x = 32" using crypto_lawsD(2) [OF assms(2,5)] .
  let ?v = "v\<lparr>s_key_fetch_result := key_x, s_key_fetch_sem := Suc (s_key_fetch_sem v)\<rparr>"
  obtain p1 where p1: "client_run env cr [Main KeyTimeout] p = Some (Inr p1)" "client_at p1 CPrompt v"
    "client_sends p p1 []" "rng_calls p1 = rng_calls p" using run_key_timeout [OF assms(3)] by blast
  obtain p2 where p2: "client_run env cr [Recv (c_stream p1) (key_resp_pkt sid x key_x)] p1 = Some (Inr p2)"
    "client_at p2 CPrompt ?v" "client_sends p1 p2 []" "rng_calls p2 = rng_calls p1"
    using run_key_resp [OF assms(1) p1(2) assms(4) key] by blast
  obtain p3 where p3: "client_run env cr [Main NoInput, Main (Line (Some (y @ SPACE # m)))] p2 = Some (Inr p3)"
    "client_at p3 (CWaitKey y m) ?v" "client_sends p2 p3 [key_req_pkt (s_session_id ?v) y]" "rng_calls p3 = rng_calls p2"
    using run_line [OF assms(1) p2(2) assms(7-11)] by blast
  obtain p4 where p4: "client_run env cr [Main NoInput] p3 = Some (Inr p4)"
    "client_sends p3 p4 [chat_send_pkt (s_session_id ?v) y eph nonce ct]"
    using run_encrypt [OF assms(1,2) p3(2) _ _ assms(11,12), of _ eph nonce ct] assms(6,13) p1(4) p2(4) p3(4) by auto
  have st: "c_stream p1 = c_stream p" using p1(3) by (simp add: client_sends_def)
  have "client_run env cr ([Main KeyTimeout] @ [Recv (c_stream p) (key_resp_pkt sid x key_x)]
      @ [Main NoInput, Main (Line (Some (y @ SPACE # m)))] @ [Main NoInput]) p = Some (Inr p4)"
    unfolding client_run_append [OF p1(1)] client_run_append [OF p2(1), unfolded st] client_run_append [OF p3(1)]
    by (rule p4(1))
  moreover have "client_sends p p4 ([] @ [] @ [key_req_pkt (s_session_id ?v) y] @ [chat_send_pkt (s_session_id ?v) y eph nonce ct])"
    using p1(3) p2(3) p3(3) p4(2) client_sends_trans by blast
  ultimately show ?thesis using decrypt_encrypt_chat [OF assms(2,5) int_sized_def [THEN iffD2, OF assms(12)] assms(13)] by auto
qed

theorem late_key_response_misused_witness:
  "\<exists>p'. client_run env_ok demo_crypto
      [Main KeyTimeout, Recv 3 (key_resp_pkt 6 [99] (replicate 32 1)),
       Main NoInput, Main (Line (Some ([100] @ SPACE # [104, 105]))), Main NoInput]
      (client_demo\<lparr>client_pc := CWaitKey [99] [1]\<rparr>) = Some (Inr p')
    \<and> client_sends (client_demo\<lparr>client_pc := CWaitKey [99] [1]\<rparr>) p'
        [key_req_pkt 6 [100], chat_send_pkt 6 [100] (replicate 32 5) (replicate 12 5) ([108, 109, 2] @ zeros 15)]"
proof -
  let ?p = "client_demo\<lparr>client_pc := CWaitKey [99] [1]\<rparr>"
  have k: "x25519_keygen demo_crypto 0 = Some (replicate 32 1, replicate 32 1)" by (simp add: demo_crypto_def)
  have nz: "replicate 32 1 \<noteq> zeros 32" by (simp add: zeros_def)
  show ?thesis
    using late_key_response_misused [OF healthy_env_ok demo_crypto_laws client_at_demo [of "CWaitKey [99] [1]"] _ k nz,
        of "[100]" "[104, 105]" _ _ _ 6] demo_encrypts
    by (auto simp: SPACE_def)
qed

section \<open>Logging in\<close>

lemma fgets_loop_prompt:
  "NL \<notin> set s \<Longrightarrow> fgets_loop n (s @ NL # r)
     = (if length s < n then (s @ [NL], r) else (take n s, drop n s @ NL # r))"
  by (induction s arbitrary: n; case_tac n) auto

lemma chomp_line: "NL \<notin> set s \<Longrightarrow> 0 \<notin> set s \<Longrightarrow> chomp (s @ [NL]) = s"
  by (simp add: chomp_def NL_def)

lemma chomp_partial:
  assumes "NL \<notin> set s" and "0 \<notin> set s"
  shows "chomp s = s"
proof -
  have "s \<noteq> [] \<Longrightarrow> last s \<noteq> NL" using assms(1) last_in_set [of s] by metis
  then show ?thesis using assms(2) by (auto simp: chomp_def Let_def)
qed

lemma sqmp_login_no_name:
  "sqmp_login env cr st [] p = Inr (-1, [], p)"
  "sqmp_login env cr st (NL # rest) p = Inr (-1, rest, p)"
  using fgets_loop_prompt [of "[]" 32 rest] chomp_line [of "[]"] by (simp_all add: sqmp_login_def fgets_def)

section \<open>Waiting for ever\<close>

text \<open>The main thread is blocked, whatever input arrives, until a callback or a signal changes the
  state.\<close>

definition client_blocked :: "env \<Rightarrow> crypto \<Rightarrow> client_state \<Rightarrow> bool" where
  "client_blocked env cr p \<longleftrightarrow> (\<forall>inp. client_main env cr (client_pc p) inp p = None)"

lemma client_blocked_auth:
  assumes "client_pc p = CWaitAuth" and "\<not> sig_delivered p" and "sessions p CLIENT_SESSION = Some v"
    and "s_auth_done v = 0"
  shows "client_blocked env cr p"
  unfolding client_blocked_def
proof
  show "client_main env cr (client_pc p) inp p = None" for inp
    using assms by (cases inp) (simp_all add: dec_sem_def interrupted_wait_def)
qed

lemma sqmp_login_session:
  assumes "sqmp_login env cr st input p = Inr (r, left, p')" and "sessions p CLIENT_SESSION = Some v"
  shows "\<exists>v'. sessions p' CLIENT_SESSION = Some v' \<and> s_auth_done v' = s_auth_done v"
  using assms
  by (auto simp: sqmp_login_def login_send_def bindr_eq_Inr_iff get_session_eq_Inr_iff Let_def same_app_def
      dest!: same_app_stream_send split: option.splits if_splits)

text \<open>C25: a login that fails is never reported. When \<^verbatim>\<open>sqmp_login\<close> returns -1 (an empty name, the
  end of the input, a failing library call), \<^verbatim>\<open>main\<close> ignores it and waits for an answer to a request
  that was not sent. In the same way, a signal during the wait for the server's \<^verbatim>\<open>HELLO_ACK\<close> ends
  that wait, but not the next one: only a second signal gets the client to exit. In both cases the
  main thread is blocked.\<close>

theorem failed_login_blocks:
  assumes "sessions p CLIENT_SESSION = Some v" and "s_auth_done v = 0"
  shows "(client_pc p = CLogin \<longrightarrow> sqmp_login env cr (c_stream p) input p = Inr (-1, left, q) \<longrightarrow>
      (\<exists>p'. client_run env cr [Main (Stdin input)] p = Some (Inr p') \<and> client_pc p' = CWaitAuth
        \<and> client_blocked env cr p'))
    \<and> sqmp_login env cr st [] p = Inr (-1, [], p) \<and> sqmp_login env cr st (NL # rest) p = Inr (-1, rest, p)
    \<and> (client_pc p = CWaitLogin \<longrightarrow>
      (\<exists>p'. client_run env cr [Signal, Main Eintr, Main NoInput] p = Some (Inr p') \<and> client_pc p' = CWaitAuth
        \<and> g_interrupted p' \<and> client_blocked env cr p'))"
proof -
  have "\<exists>p'. client_run env cr [Main (Stdin input)] p = Some (Inr p') \<and> client_pc p' = CWaitAuth
        \<and> client_blocked env cr p'"
    if pc: "client_pc p = CLogin" and l: "sqmp_login env cr (c_stream p) input p = Inr (-1, left, q)"
  proof -
    obtain v' where v': "sessions q CLIENT_SESSION = Some v'" "s_auth_done v' = 0"
      using sqmp_login_session [OF l assms(1)] assms(2) by auto
    have "client_run env cr [Main (Stdin input)] p = Some (Inr (client_goto CWaitAuth q))" using pc l by simp
    then show ?thesis using v' by (auto intro: client_blocked_auth)
  qed
  moreover have "\<exists>p'. client_run env cr [Signal, Main Eintr, Main NoInput] p = Some (Inr p') \<and> client_pc p' = CWaitAuth
        \<and> g_interrupted p' \<and> client_blocked env cr p'"
    if pc: "client_pc p = CWaitLogin"
  proof -
    let ?p1 = "client_goto CLoginCheck (client_sig_handler p)"
    have s: "sessions (client_sig_handler p) = sessions p" "g_interrupted (client_sig_handler p)"
      "client_pc (client_sig_handler p) = client_pc p" "sig_delivered (client_sig_handler p)"
      by (simp_all add: client_sig_handler_def)
    have "client_run env cr [Signal, Main Eintr, Main NoInput] p = Some (Inr (client_goto CWaitAuth ?p1))"
      using pc s by (simp add: interrupted_wait_def)
    then show ?thesis using assms s by (auto intro: client_blocked_auth)
  qed
  ultimately show ?thesis using sqmp_login_no_name by simp
qed

theorem failed_login_blocks_witness:
  "\<exists>p'. client_run env_ok demo_crypto [Main (Stdin [NL, 65])] (client_demo\<lparr>client_pc := CLogin\<rparr>) = Some (Inr p')
     \<and> client_blocked env_ok demo_crypto p'"
proof -
  let ?p = "client_demo\<lparr>client_pc := CLogin\<rparr>"
  have s: "sessions ?p CLIENT_SESSION = Some client_session" "client_pc ?p = CLogin" by (simp_all add: client_demo_def)
  show ?thesis
    using failed_login_blocks [OF s(1), of env_ok demo_crypto "[NL, 65]" "[65]" ?p 3 "[65]"] s(2)
    by simp
qed

definition auth_req_pkt :: "u32 \<Rightarrow> bytes \<Rightarrow> bytes \<Rightarrow> bytes \<Rightarrow> bytes" where
  "auth_req_pkt sid name hash key = enc_pkt (make_pkt SQMP_MSG_TYPE_AUTH_REQ sid)
     @ enc_auth_req \<lparr>auth_req_username_len = of_nat (length name), auth_req_username = name @ zeros (32 - length name),
          auth_req_password_hash = hash, auth_req_pubkey_len = 32, auth_req_public_key = key\<rparr>"

text \<open>The client's session after the credentials have been entered.\<close>

definition logging_in :: "bytes \<Rightarrow> bytes \<Rightarrow> bytes \<Rightarrow> sqmp_session \<Rightarrow> sqmp_session" where
  "logging_in name priv pub v = v\<lparr>s_client_pubkey := pub, s_client_privkey := priv,
     s_username_len := of_nat (length name), s_username := name @ drop (length name) (s_username v)\<rparr>"

lemma login_send_live:
  assumes "healthy env" and "crypto_laws cr" and "live_stream p st" and "sessions p CLIENT_SESSION = Some v"
    and "wf_session v" and "length name \<le> 32" and "x25519_keygen cr (rng_calls p) = Some (priv, pub)"
  shows "login_send env cr st name pw p = Inr (0,
    after_send st (auth_req_pkt (s_session_id v) name (sha256 cr pw) pub)
      (put_session CLIENT_SESSION (logging_in name priv pub v) (p\<lparr>rng_calls := Suc (rng_calls p)\<rparr>)))"
proof -
  have len: "length (sha256 cr pw) = 32" "length pub = 32" using crypto_lawsD(2,5) [OF assms(2)] assms(7) by blast+
  have "live_stream (p\<lparr>rng_calls := n\<rparr>) st" for n using assms(3) by (simp add: live_stream_iff)
  then show ?thesis
    using assms(1,4-7) len
    by (simp add: login_send_def Let_def wf_session_def sqmp_stream_send_live auth_req_pkt_def logging_in_def enc_auth_req_def)
qed

text \<open>C22: what the login prompt sends. The user types a name and a password, each ended by a
  newline. When the name has at most 31 bytes, exactly one \<^verbatim>\<open>AUTH_REQ\<close> goes out, with that name,
  the SHA-256 of the password and a fresh public key whose private key the session keeps, and no
  further input is read. A name of the maximal length of 32 bytes, or a longer one, goes wrong:
  \<^verbatim>\<open>fgets\<close> takes its first 32 bytes, the rest of the name (nothing, for 32 bytes) is taken as the
  password, and the password stays in the input.\<close>

theorem login_sends_credentials:
  fixes name pw rest :: bytes
  assumes "healthy env" and "crypto_laws cr" and "live_stream p st" and "sessions p CLIENT_SESSION = Some v"
    and "wf_session v" and "x25519_keygen cr (rng_calls p) = Some (priv, pub)"
    and "set (name @ pw) \<inter> {0, NL} = {}" and "name \<noteq> []" and "length pw < 255" and "length name < 287"
  defines "input \<equiv> name @ NL # pw @ NL # rest"
  shows "\<exists>p' user secret left. sqmp_login env cr st input p = Inr (0, left, p')
    \<and> sent_packets p' = sent_packets p @ [(handle_of p st, auth_req_pkt (s_session_id v) user (sha256 cr secret) pub)]
    \<and> sessions p' = (sessions p)(CLIENT_SESSION \<mapsto> logging_in user priv pub v)
    \<and> (if length name < 32 then user = name \<and> secret = pw \<and> left = rest
       else user = take 32 name \<and> secret = drop 32 name \<and> left = pw @ NL # rest)"
proof -
  have nz: "NL \<notin> set name" "0 \<notin> set name" "NL \<notin> set pw" "0 \<notin> set pw" using assms(7) by auto
  define user secret left where "user = (if length name < 32 then name else take 32 name)"
    and "secret = (if length name < 32 then pw else drop 32 name)"
    and "left = (if length name < 32 then rest else pw @ NL # rest)"
  obtain l1 i1 where l1: "fgets 33 input = Some (l1, i1)" "chomp l1 = user" "i1 = secret @ NL # left"
  proof (cases "length name < 32")
    case True
    then have "fgets 33 input = Some (name @ [NL], pw @ NL # rest)"
      using fgets_loop_prompt [OF nz(1), of 32] by (simp add: fgets_def input_def)
    then show thesis using that chomp_line [OF nz(1,2)] True by (simp add: user_def secret_def left_def)
  next
    case False
    then have "fgets 33 input = Some (take 32 name, drop 32 name @ NL # pw @ NL # rest)"
      using fgets_loop_prompt [OF nz(1), of 32] by (simp add: fgets_def input_def)
    moreover have "NL \<notin> set (take 32 name)" "0 \<notin> set (take 32 name)" using nz by (auto dest: in_set_takeD)
    ultimately show thesis using that chomp_partial False by (simp add: user_def secret_def left_def)
  qed
  have s: "NL \<notin> set secret" "0 \<notin> set secret" "length secret < 255"
    using nz assms(9,10) by (auto simp: secret_def dest: in_set_dropD)
  have l2: "fgets 256 i1 = Some (secret @ [NL], left)"
    using fgets_loop_prompt [OF s(1), of 255] s(3) by (simp add: l1(3) fgets_def)
  have u: "user \<noteq> []" "length user \<le> 32" using assms(8) by (auto simp: user_def)
  let ?p' = "after_send st (auth_req_pkt (s_session_id v) user (sha256 cr secret) pub)
      (put_session CLIENT_SESSION (logging_in user priv pub v) (p\<lparr>rng_calls := Suc (rng_calls p)\<rparr>))"
  have run: "sqmp_login env cr st input p = Inr (0, left, ?p')"
    using l1(1,2) l2 u chomp_line [OF s(1,2)] login_send_live [OF assms(1-5) u(2) assms(6), of secret]
    by (simp add: sqmp_login_def)
  have "sent_packets (p\<lparr>rng_calls := n\<rparr>) = sent_packets p" "handle_of (p\<lparr>rng_calls := n\<rparr>) st = handle_of p st" for n
    by (simp_all add: sent_packets_def handle_of_def)
  then show ?thesis
    using run by (intro exI [of _ ?p'] exI [of _ user] exI [of _ secret] exI [of _ left])
      (simp add: user_def secret_def left_def)
qed

theorem login_sends_credentials_witness:
  "\<exists>p'. sqmp_login env_ok demo_crypto 3 (replicate 32 65 @ NL # [66] @ NL # []) client_demo = Inr (0, [66, NL], p')
     \<and> sent_packets p' = [(9, auth_req_pkt 6 (replicate 32 65) (zeros 32) (replicate 32 5))]"
proof -
  have k: "x25519_keygen demo_crypto (rng_calls client_demo) = Some (replicate 32 5, replicate 32 5)"
    by (simp add: demo_crypto_def)
  have h: "sha256 demo_crypto [] = zeros 32" by (simp add: demo_crypto_def)
  show ?thesis
    using login_sends_credentials [OF healthy_env_ok demo_crypto_laws client_demo_simps(2,1) _ k,
        of "replicate 32 65" "[66]" "[]"]
    by (auto simp: NL_def h)
qed

end
