(* ===== verification/Sqmp_Client_Inv.thy ===== *)
theory Sqmp_Client_Inv
  imports Sqmp_Client_Chat
begin

text \<open>
  The invariant of the client: callbacks preserve it (an interpretation of \<open>quic_application\<close> on the
  client's own callbacks), and so do the steps of the main thread and start-up.
\<close>

section \<open>An invariant of every reachable state\<close>

text \<open>The client's session goes through HELLO, AUTH and CONN_ESTABLISHED; it is authenticated exactly
  in the last, and posts \<^verbatim>\<open>login_ready\<close> only once the handshake is over.\<close>

definition client_session_inv :: "sqmp_session \<Rightarrow> bool" where
  "client_session_inv v \<longleftrightarrow> wf_session v
     \<and> s_state v \<in> {SQMP_SESSION_STATE_HELLO, SQMP_SESSION_STATE_AUTH, SQMP_SESSION_STATE_CONN_ESTABLISHED}
     \<and> (s_auth_ok v \<longleftrightarrow> s_state v = SQMP_SESSION_STATE_CONN_ESTABLISHED)
     \<and> (0 < s_login_ready v \<longrightarrow> s_state v \<noteq> SQMP_SESSION_STATE_HELLO)"

definition client_evolves :: "sqmp_session \<Rightarrow> sqmp_session \<Rightarrow> bool" where
  "client_evolves v v' \<longleftrightarrow> (client_session_inv v \<longrightarrow> client_session_inv v' \<and> s_state v \<le> s_state v')"

text \<open>The phases of \<^verbatim>\<open>main\<close> in which it reads or sends messages.\<close>

fun chatting :: "client_pc \<Rightarrow> bool" where
  "chatting CPrompt = True"
| "chatting CReadline = True"
| "chatting (CWaitKey r m) = True"
| "chatting _ = False"

definition client_inv :: "client_state \<Rightarrow> bool" where
  "client_inv p \<longleftrightarrow> (\<exists>v. sessions p CLIENT_SESSION = Some v \<and> client_session_inv v
     \<and> (client_pc p = CLoginCheck \<longrightarrow> s_state v \<noteq> SQMP_SESSION_STATE_HELLO \<or> g_interrupted p)
     \<and> (client_pc p = CLogin \<longrightarrow> s_state v \<noteq> SQMP_SESSION_STATE_HELLO)
     \<and> (chatting (client_pc p) \<longrightarrow> s_state v = SQMP_SESSION_STATE_CONN_ESTABLISHED))
   \<and> (g_readline_active p \<longleftrightarrow> client_pc p = CReadline)"

text \<open>What a callback may do to the state.\<close>

definition client_frame :: "client_state \<Rightarrow> client_state \<Rightarrow> bool" where
  "client_frame p p' \<longleftrightarrow> client_pc p' = client_pc p \<and> (g_interrupted p \<longrightarrow> g_interrupted p')
     \<and> g_readline_active p' = g_readline_active p
     \<and> (\<forall>v. sessions p CLIENT_SESSION = Some v \<longrightarrow>
          (\<exists>v'. sessions p' CLIENT_SESSION = Some v' \<and> client_evolves v v'))"

lemma session_state_max: "SQMP_SESSION_STATE_CONN_ESTABLISHED \<le> s \<Longrightarrow>
    s \<in> {SQMP_SESSION_STATE_HELLO, SQMP_SESSION_STATE_AUTH, SQMP_SESSION_STATE_CONN_ESTABLISHED} \<Longrightarrow>
    s = SQMP_SESSION_STATE_CONN_ESTABLISHED"
  by (auto simp: session_state_order)

lemma session_state_min: "s \<le> SQMP_SESSION_STATE_HELLO \<Longrightarrow> s = SQMP_SESSION_STATE_HELLO"
  by (cases s) (simp_all add: session_state_order)

lemma client_inv_frame:
  assumes "client_inv p" and "client_frame p p'"
  shows "client_inv p'"
proof -
  obtain v where v: "sessions p CLIENT_SESSION = Some v" "client_session_inv v"
    and pc: "client_pc p = CLoginCheck \<longrightarrow> s_state v \<noteq> SQMP_SESSION_STATE_HELLO \<or> g_interrupted p"
      "client_pc p = CLogin \<longrightarrow> s_state v \<noteq> SQMP_SESSION_STATE_HELLO"
      "chatting (client_pc p) \<longrightarrow> s_state v = SQMP_SESSION_STATE_CONN_ESTABLISHED"
    using assms(1) by (auto simp: client_inv_def)
  then obtain v' where v': "sessions p' CLIENT_SESSION = Some v'" "client_session_inv v'" "s_state v \<le> s_state v'"
    using assms(2) by (auto simp: client_frame_def client_evolves_def)
  have "s_state v \<noteq> SQMP_SESSION_STATE_HELLO \<Longrightarrow> s_state v' \<noteq> SQMP_SESSION_STATE_HELLO"
    using v'(3) session_state_min by auto
  moreover have "s_state v = SQMP_SESSION_STATE_CONN_ESTABLISHED \<Longrightarrow> s_state v' = SQMP_SESSION_STATE_CONN_ESTABLISHED"
    using v'(2,3) session_state_max [of "s_state v'"] by (simp add: client_session_inv_def)
  ultimately show ?thesis
    using assms v' pc by (auto simp: client_inv_def client_frame_def)
qed

lemma client_evolves_refl [simp]: "client_evolves v v"
  by (simp add: client_evolves_def)

lemma client_evolves_trans: "client_evolves u v \<Longrightarrow> client_evolves v w \<Longrightarrow> client_evolves u w"
  by (auto simp: client_evolves_def)

lemma client_frame_refl [simp]: "client_frame p p"
  by (simp add: client_frame_def)

lemma client_frame_trans: "client_frame p q \<Longrightarrow> client_frame q r \<Longrightarrow> client_frame p r"
  unfolding client_frame_def using client_evolves_trans by (metis (no_types))

lemma client_frame_more:
  assumes "sqmp_state.more p' = sqmp_state.more p"
  shows "client_pc p' = client_pc p" "g_interrupted p' = g_interrupted p" "g_readline_active p' = g_readline_active p"
    "c_stream p' = c_stream p" "rng_calls p' = rng_calls p"
  using assms by (cases p; cases p'; simp)+

lemma client_frame_same_app: "same_app p p' \<Longrightarrow> client_frame p p'"
  using client_frame_more [of p p'] by (simp add: client_frame_def same_app_def)

lemma client_frame_put:
  assumes "sessions p a = Some v" and "client_evolves v v'"
  shows "client_frame p (put_session a v' p)"
proof -
  have "sqmp_state.more (put_session a v' p) = sqmp_state.more p" by (simp add: put_session_def)
  then show ?thesis using assms client_frame_more [of "put_session a v' p" p] by (auto simp: client_frame_def)
qed

lemma client_frame_out [simp]: "client_frame p (out t q) \<longleftrightarrow> client_frame p q" "client_frame (out t p) q \<longleftrightarrow> client_frame p q"
  using client_frame_more [of "out t q" q] client_frame_more [of "out t p" p]
  by (simp_all add: client_frame_def) (simp_all add: out_def)

lemma client_frame_allocs [simp]: "client_frame p (q\<lparr>qs_allocs := n\<rparr>) \<longleftrightarrow> client_frame p q"
  by (simp add: client_frame_def)

lemma client_frame_interrupt: "client_frame p q \<Longrightarrow> client_frame p (client_sig_handler q)"
  by (simp add: client_frame_def client_sig_handler_def)

lemma client_evolves_keys:
  "length key = 32 \<Longrightarrow> client_evolves v (v\<lparr>s_key_fetch_result := key, s_key_fetch_sem := n\<rparr>)"
  by (simp add: client_evolves_def client_session_inv_def wf_session_def)

lemma hello_ack_client_frame: "sqmp_process_hello_ack s d p = Inr p' \<Longrightarrow> client_frame p p'"
  by (auto simp: sqmp_process_hello_ack_def bindr_eq_Inr_iff get_session_eq_Inr_iff client_evolves_def
      client_session_inv_def wf_session_def session_state_order split: if_splits intro!: client_frame_put)

lemma auth_resp_client_frame: "sqmp_process_auth_resp s d p = Inr p' \<Longrightarrow> client_frame p p'"
  by (auto simp: sqmp_process_auth_resp_def bindr_eq_Inr_iff get_session_eq_Inr_iff client_evolves_def
      client_session_inv_def wf_session_def session_state_order split: if_splits intro!: client_frame_put)

lemma client_evolves_fetched:
  assumes "memcpy (s_key_fetch_result v) k = Inr key"
  shows "client_evolves v (v\<lparr>s_key_fetch_result := key, s_key_fetch_sem := n\<rparr>)"
  using memcpy_InrD [OF assms] by (auto simp: client_evolves_def client_session_inv_def wf_session_def)

lemma key_resp_client_frame: "sqmp_process_key_resp s d p = Inr p' \<Longrightarrow> client_frame p p'"
  by (auto simp: sqmp_process_key_resp_def bindr_eq_Inr_iff get_session_eq_Inr_iff client_evolves_keys
      split: if_splits intro!: client_frame_put intro: client_evolves_fetched)

lemma client_error_frame: "client_process_error s d p = Inr p' \<Longrightarrow> client_frame p p'"
  by (auto simp: client_process_error_def bindr_eq_Inr_iff get_session_eq_Inr_iff Let_def client_evolves_keys
      split: if_splits intro!: client_frame_trans [OF _ client_frame_put])

lemma client_bye_frame: "client_process_bye env st s p = Inr p' \<Longrightarrow> client_frame p p'"
  by (auto simp: client_process_bye_def bindr_eq_Inr_iff dest!: same_app_send_bye
      intro: client_frame_interrupt client_frame_same_app)

lemma client_frame_bindr:
  "bindr m f = Inr p' \<Longrightarrow> (\<And>x. f x = Inr p' \<Longrightarrow> client_frame p p') \<Longrightarrow> client_frame p p'"
  by (auto simp: bindr_eq_Inr_iff)

lemma client_deliver_frame: "client_process_chat_deliver env cr s d p = Inr p' \<Longrightarrow> client_frame p p'"
  unfolding client_process_chat_deliver_def alloc_def Let_def
  by (auto elim!: client_frame_bindr split: if_splits option.splits)

lemmas client_handler_frames = hello_ack_client_frame auth_resp_client_frame key_resp_client_frame
  client_error_frame client_bye_frame client_deliver_frame

lemma client_recv_frame: "client_on_stream_recv env cr st d n p = Inr p' \<Longrightarrow> client_frame p p'"
  by (auto simp: client_on_stream_recv_def bindr_eq_Inr_iff split: if_splits dest: client_handler_frames)

lemma client_disconnected_frame: "client_on_disconnected c p = Inr p' \<Longrightarrow> client_frame p p'"
  by (auto simp: client_on_disconnected_def client_frame_def client_sig_handler_def)
     (simp_all add: out_def)

text \<open>Callbacks do not move the main thread.\<close>

definition client_inv_at :: "client_pc \<Rightarrow> client_state \<Rightarrow> bool" where
  "client_inv_at pc p \<longleftrightarrow> client_inv p \<and> client_pc p = pc"

lemma client_inv_at_frame: "client_inv_at pc p \<Longrightarrow> client_frame p p' \<Longrightarrow> client_inv_at pc p'"
  using client_inv_frame by (auto simp: client_inv_at_def client_frame_def)

interpretation cli: quic_application "client_config env cr" "client_inv_at pc" for env cr pc
proof unfold_locales
  show "client_inv_at pc p \<Longrightarrow> client_inv_at pc (p\<lparr>qs_ctxs := xs\<rparr>)" for p xs
    by (auto simp: client_inv_at_def client_inv_def)
  show "client_inv_at pc p \<Longrightarrow> client_inv_at pc (p\<lparr>qs_conns := cs\<rparr>)" for p cs
    by (auto simp: client_inv_at_def client_inv_def)
  show "client_inv_at pc p \<Longrightarrow> client_inv_at pc (p\<lparr>qs_streams := ss\<rparr>)" for p ss
    by (auto simp: client_inv_at_def client_inv_def)
  show "client_inv_at pc p \<Longrightarrow> client_inv_at pc (p\<lparr>qs_sendbufs := bs\<rparr>)" for p bs
    by (auto simp: client_inv_at_def client_inv_def)
  show "client_inv_at pc p \<Longrightarrow> client_inv_at pc (p\<lparr>qs_calls := ks\<rparr>)" for p ks
    by (auto simp: client_inv_at_def client_inv_def)
  show "client_inv_at pc p \<Longrightarrow> client_inv_at pc (p\<lparr>qs_allocs := n\<rparr>)" for p n
    by (auto simp: client_inv_at_def client_inv_def)
qed (auto simp: client_config_def client_on_connected_def
      dest: client_recv_frame client_disconnected_frame intro: client_inv_at_frame)

lemma client_invE:
  assumes "client_inv p"
  obtains v where "sessions p CLIENT_SESSION = Some v" and "client_session_inv v"
    and "client_pc p = CLoginCheck \<Longrightarrow> s_state v \<noteq> SQMP_SESSION_STATE_HELLO \<or> g_interrupted p"
    and "client_pc p = CLogin \<Longrightarrow> s_state v \<noteq> SQMP_SESSION_STATE_HELLO"
    and "chatting (client_pc p) \<Longrightarrow> s_state v = SQMP_SESSION_STATE_CONN_ESTABLISHED"
    and "g_readline_active p = (client_pc p = CReadline)"
  using assms by (auto simp: client_inv_def)

text \<open>A step that leaves the session alone and goes on to a phase with no condition of its own.\<close>

definition free_pc :: "client_pc \<Rightarrow> bool" where
  "free_pc pc \<longleftrightarrow> pc \<in> {CWaitLogin, CWaitAuth, CAuthChecked, CDisconnect, CReturned}"

lemma client_inv_free:
  assumes "sessions q CLIENT_SESSION = Some v" and "client_session_inv v" and "free_pc pc" and "\<not> g_readline_active q"
  shows "client_inv (client_goto pc q)"
  using assms by (auto simp: client_inv_def free_pc_def client_goto_def)

lemma client_inv_chat:
  assumes "sessions q CLIENT_SESSION = Some v" and "client_session_inv v" and "chatting pc"
    and "s_state v = SQMP_SESSION_STATE_CONN_ESTABLISHED" and "g_readline_active q = (pc = CReadline)"
  shows "client_inv (client_goto pc q)"
  using assms by (auto simp: client_inv_def client_goto_def)

lemma client_session_inv_dec:
  assumes "client_session_inv v"
  shows "client_session_inv (s_login_ready_update (\<lambda>n. n - 1) v)"
    "client_session_inv (s_auth_done_update (\<lambda>n. n - 1) v)"
    "client_session_inv (s_key_fetch_sem_update (\<lambda>n. n - 1) v)"
  using assms by (auto simp: client_session_inv_def wf_session_def)

lemma dec_sem_InrD:
  assumes "dec_sem sem upd pc p = Some (Inr p')" and "sessions p CLIENT_SESSION = Some v"
  shows "0 < sem v" "p' = client_goto pc (put_session CLIENT_SESSION (upd (\<lambda>n. n - 1) v) p)"
  using assms by (auto simp: dec_sem_def split: if_splits)

lemma put_session_client [simp]:
  "g_readline_active (put_session a v p) = g_readline_active p" "g_interrupted (put_session a v p) = g_interrupted p"
  "client_pc (put_session a v p) = client_pc p"
  by (simp_all add: put_session_def)

lemma sqmp_login_inv:
  assumes "sqmp_login env cr st input p = Inr (r, left, p')" and "crypto_laws cr"
    and "sessions p CLIENT_SESSION = Some v" and "client_session_inv v"
  shows "\<exists>v'. sessions p' CLIENT_SESSION = Some v' \<and> client_session_inv v'" "g_readline_active p' = g_readline_active p"
proof -
  have len: "length uname \<le> 32 \<Longrightarrow> x25519_keygen cr n = Some (priv, pub) \<Longrightarrow>
      client_session_inv (v\<lparr>s_client_pubkey := pub, s_client_privkey := priv, s_username_len := of_nat (length uname),
        s_username := uname @ drop (length uname) (s_username v)\<rparr>)" for uname n priv pub
    using assms(4) crypto_lawsD(1,2) [OF assms(2)]
    by (auto simp: client_session_inv_def wf_session_def unat_small_length)
  have app: "g_readline_active q' = g_readline_active q" if "same_app q q'" for q q' :: client_state
    using that client_frame_more(3) [of q' q] by (simp add: same_app_def)
  show "\<exists>v'. sessions p' CLIENT_SESSION = Some v' \<and> client_session_inv v'"
    using assms(1,3,4) len
    by (auto simp: sqmp_login_def login_send_def bindr_eq_Inr_iff get_session_eq_Inr_iff Let_def same_app_def memcpy_def
        dest!: same_app_stream_send split: option.splits if_splits)
  show "g_readline_active p' = g_readline_active p"
    using assms(1,3)
    by (auto simp: sqmp_login_def login_send_def bindr_eq_Inr_iff get_session_eq_Inr_iff Let_def
        dest!: same_app_stream_send app split: option.splits if_splits)
qed

lemma client_line_inv:
  assumes "client_line env line p = Inr p'" and "sessions p CLIENT_SESSION = Some v" and "client_session_inv v"
    and "s_state v = SQMP_SESSION_STATE_CONN_ESTABLISHED" and "\<not> g_readline_active p"
  shows "client_inv p'"
proof -
  have app: "same_app p q \<Longrightarrow> sessions q = sessions p \<and> \<not> g_readline_active q" for q :: client_state
    using client_frame_more(3) [of q p] assms(5) by (simp add: same_app_def)
  have req: "sessions q = sessions p \<and> \<not> g_readline_active q"
    if "send_chat_request env st r (out t p) = Inr q" for st r t q
  proof -
    have "same_app (out t p) q"
      using that by (auto simp: send_chat_request_def bindr_eq_Inr_iff dest: same_app_send_pkt)
    then show ?thesis
      using client_frame_more(3) [of q "out t p"] assms(5) by (simp add: same_app_def) (simp add: out_def)
  qed
  have o: "\<not> g_readline_active (out t p)" for t using assms(5) by (simp add: out_def)
  show ?thesis
    using assms o req
    by (auto simp: client_line_def bindr_eq_Inr_iff free_pc_def split: line_action.splits
        intro: client_inv_chat [where v = v] client_inv_free [where v = v] dest!: req)
qed

lemma send_chat_encrypt_frame:
  assumes "send_chat_encrypt env cr st r m p = Inr (x, p')"
  shows "client_frame p p'"
proof -
  have [simp]: "client_frame p (q\<lparr>rng_calls := n\<rparr>) \<longleftrightarrow> client_frame p q" for q n by (simp add: client_frame_def)
  have send: "client_frame p q'" if "sqmp_stream_send env st' d n q = Inr (y, q')" "client_frame p q" for st' d n q y q'
    using client_frame_trans [OF that(2) client_frame_same_app [OF same_app_stream_send [OF that(1)]]] .
  show ?thesis
    using assms unfolding send_chat_encrypt_def alloc_def Let_def
    by (auto elim!: bindr_InrE send split: if_splits option.splits)
qed

lemma client_finish_inv:
  assumes "client_finish env cr evs p = Some (Inr p')" and "client_inv p" and "client_pc p = CDisconnect"
  shows "client_inv p'"
proof -
  let ?bye = "if g_conn_alive p then sqmp_send_bye env (Some (c_stream p)) (Some CLIENT_SESSION) p else Inr p"
  obtain evs' p1 where "bindr ?bye (sqmp_quic_disconnect env (client_config env cr) (Some (c_conn p)) evs) = Inr (Some (evs', p1))"
    and "bindr (sqmp_quic_destroy (Some (c_ctx p1)) p1) (\<lambda>p2. Inr (client_goto CReturned p2)) = Inr p'"
    using assms(1) unfolding client_finish_def by (simp split: sum.splits option.splits prod.splits)
  then obtain p0 p2 where p0: "?bye = Inr p0"
    and p1: "sqmp_quic_disconnect env (client_config env cr) (Some (c_conn p)) evs p0 = Inr (Some (evs', p1))"
    and p2: "sqmp_quic_destroy (Some (c_ctx p1)) p1 = Inr p2" and p': "p' = client_goto CReturned p2"
    unfolding bindr_eq_Inr_iff by blast
  have "same_app p p0" using p0 by (auto split: if_splits dest: same_app_send_bye)
  moreover have "client_inv_at CDisconnect p" using assms(2,3) by (simp add: client_inv_at_def)
  ultimately have "client_inv_at CDisconnect p0" using client_inv_at_frame client_frame_same_app by blast
  then have "client_inv_at CDisconnect p2" using cli.inv_disconnect [OF p1] cli.inv_destroy [OF p2] by blast
  then obtain v where "sessions p2 CLIENT_SESSION = Some v" "client_session_inv v" "\<not> g_readline_active p2"
    unfolding client_inv_at_def client_inv_def by auto
  then show ?thesis using p' by (auto intro: client_inv_free simp: free_pc_def)
qed

text \<open>Every step of the main thread keeps the invariant.\<close>

lemma client_main_inv:
  assumes "client_main env cr (client_pc p) inp p = Some (Inr p')" and "client_inv p" and "crypto_laws cr"
  shows "client_inv p'"
proof -
  obtain v where v: "sessions p CLIENT_SESSION = Some v" "client_session_inv v"
    and pc: "client_pc p = CLoginCheck \<Longrightarrow> s_state v \<noteq> SQMP_SESSION_STATE_HELLO \<or> g_interrupted p"
      "client_pc p = CLogin \<Longrightarrow> s_state v \<noteq> SQMP_SESSION_STATE_HELLO"
      "chatting (client_pc p) \<Longrightarrow> s_state v = SQMP_SESSION_STATE_CONN_ESTABLISHED"
    and rl: "g_readline_active p = (client_pc p = CReadline)"
    by (rule client_invE [OF assms(2)], rule that)
  note dec = client_session_inv_dec [OF v(2)]
  have free: "client_inv (client_goto pc p)" if "free_pc pc" "\<not> g_readline_active p" for pc
    using client_inv_free [OF v] that by blast
  show ?thesis
  proof (cases "client_pc p")
    case CWaitLogin
    show ?thesis
    proof (cases "inp = Eintr")
      case True
      then show ?thesis
        using assms(1) CWaitLogin v rl
        by (auto simp: interrupted_wait_def client_inv_def client_goto_def split: if_splits)
    next
      case False
      then have d: "dec_sem s_login_ready s_login_ready_update CLoginCheck p = Some (Inr p')"
        using assms(1) CWaitLogin by (cases inp) simp_all
      note r = dec_sem_InrD [OF d v(1)]
      have "s_state v \<noteq> SQMP_SESSION_STATE_HELLO" using r(1) v(2) by (simp add: client_session_inv_def)
      then show ?thesis using r(2) dec(1) rl CWaitLogin by (auto simp: client_inv_def client_goto_def)
    qed
  next
    case CLoginCheck
    then show ?thesis
      using assms(1) v pc(1) rl by (cases "g_interrupted p") (auto simp: client_inv_def client_goto_def)
  next
    case CLogin
    show ?thesis
    proof (cases inp)
      case (Stdin input)
      then obtain r left q where q: "sqmp_login env cr (c_stream p) input p = Inr (r, left, q)" "p' = client_goto CWaitAuth q"
        using assms(1) CLogin by (auto simp: bindr_eq_Inr_iff)
      obtain w where "sessions q CLIENT_SESSION = Some w" "client_session_inv w"
        using sqmp_login_inv(1) [OF q(1) assms(3) v] by blast
      then show ?thesis
        using q(2) sqmp_login_inv(2) [OF q(1) assms(3) v] rl CLogin by (auto intro!: client_inv_free simp: free_pc_def)
    qed (use assms(1) CLogin free rl in \<open>auto simp: free_pc_def split: if_splits\<close>)
  next
    case CWaitAuth
    show ?thesis
    proof (cases "inp = Eintr")
      case True
      then show ?thesis using assms(1) CWaitAuth free rl by (auto simp: interrupted_wait_def free_pc_def split: if_splits)
    next
      case False
      then have d: "dec_sem s_auth_done s_auth_done_update CAuthChecked p = Some (Inr p')"
        using assms(1) CWaitAuth by (cases inp) simp_all
      show ?thesis
        using dec_sem_InrD(2) [OF d v(1)] dec(2) rl CWaitAuth by (auto intro!: client_inv_free simp: free_pc_def)
    qed
  next
    case CAuthChecked
    then show ?thesis
      using assms(1) v rl by (cases "g_interrupted p") (auto simp: client_inv_def client_goto_def client_session_inv_def)
  next
    case CPrompt
    then show ?thesis
      using assms(1) v pc(3) rl by (cases "g_interrupted p") (auto simp: client_inv_def client_goto_def)
  next
    case CReadline
    let ?q = "p\<lparr>g_readline_active := False\<rparr>"
    show ?thesis
    proof (cases inp)
      case (Line l)
      show ?thesis
      proof (cases l)
        case None
        then show ?thesis
          using assms(1) CReadline Line v by (auto intro!: client_inv_free simp: free_pc_def)
      next
        case (Some line)
        then have "client_line env line ?q = Inr p'" using assms(1) CReadline Line by simp
        from client_line_inv [OF this, of v] show ?thesis using v pc(3) CReadline by simp
      qed
    next
      case (Poll typed)
      then have "client_line env [] ?q = Inr p'"
        using assms(1) CReadline by (simp add: rl_interrupt_hook_def split: if_splits)
      from client_line_inv [OF this, of v] show ?thesis using v pc(3) CReadline by simp
    qed (use assms(1) CReadline in simp_all)
  next
    case (CWaitKey r m)
    have est: "s_state v = SQMP_SESSION_STATE_CONN_ESTABLISHED" using pc(3) CWaitKey by simp
    have prompt: "client_inv (client_goto CPrompt p)"
      using client_inv_chat [OF v(1,2)] est rl CWaitKey by simp
    show ?thesis
    proof (cases "inp = Eintr \<or> inp = KeyTimeout")
      case True
      then show ?thesis using assms(1) CWaitKey prompt by (auto split: if_splits)
    next
      case False
      let ?w = "s_key_fetch_sem_update (\<lambda>n. n - 1) v"
      let ?q = "client_goto CPrompt (put_session CLIENT_SESSION ?w p)"
      obtain q x where d: "dec_sem s_key_fetch_sem s_key_fetch_sem_update CPrompt p = Some (Inr q)"
        and e: "send_chat_encrypt env cr (c_stream q) r m q = Inr (x, p')"
        using assms(1) CWaitKey False
        by (cases inp; cases "dec_sem s_key_fetch_sem s_key_fetch_sem_update CPrompt p")
          (auto simp: bindr_eq_Inr_iff split: sum.splits)
      have "client_inv ?q"
        using client_inv_chat [of "put_session CLIENT_SESSION ?w p" ?w CPrompt] dec(3) est rl CWaitKey by simp
      then have "client_inv q" using dec_sem_InrD(2) [OF d v(1)] by simp
      then show ?thesis using client_inv_frame send_chat_encrypt_frame [OF e] by blast
    qed
  next
    case CDisconnect
    then show ?thesis
      using assms(1,2) client_finish_inv by (cases inp) auto
  qed (use assms(1) in simp_all)
qed

lemma new_session_inv: "client_session_inv new_session"
  by (simp add: client_session_inv_def) (simp add: new_session_def)

lemma client_boot_inv:
  assumes "client_boot env cr args evs p0 = Inr (Some (None, p))"
  shows "client_inv p"
proof -
  let ?p = "(put_session CLIENT_SESSION new_session p0)\<lparr>g_interrupted := False, g_conn_alive := True,
                  g_readline_active := False, client_pc := CStart\<rparr>"
  have "client_inv_at CStart ?p" using new_session_inv by (simp add: client_inv_at_def client_inv_def)
  moreover obtain c p1 where init: "sqmp_quic_init env (client_config env cr) ?p = (Some c, p1)"
    using assms by (cases "sqmp_quic_init env (client_config env cr) ?p")
      (auto simp: client_boot_def Let_def split: if_splits option.splits)
  ultimately have "client_inv_at CStart p1" using cli.inv_init by blast
  then have "client_inv_at CStart (p1\<lparr>c_ctx := c\<rparr>)" by (auto simp: client_inv_at_def client_inv_def)
  moreover obtain r where r: "sqmp_quic_connect env (client_config env cr) c CLIENT_ALPN (args ! 0)
      CLIENT_SERVER_PORT evs (p1\<lparr>c_ctx := c\<rparr>) = Inr r"
    and cont: "(case r of None \<Rightarrow> Inr None
       | Some (None, evs', p2) \<Rightarrow> bindr (sqmp_quic_destroy (Some c) p2) (\<lambda>p3. Inr (Some (Some 1, p3)))
       | Some (Some conn, evs', p2) \<Rightarrow> client_hello env cr c conn evs' p2) = Inr (Some (None, p))"
    using assms init unfolding client_boot_def Let_def by (simp add: bindr_eq_Inr_iff split: if_splits) blast
  moreover obtain conn evs' p2 where r2: "r = Some (Some conn, evs', p2)" and
    rest: "client_hello env cr c conn evs' p2 = Inr (Some (None, p))"
    using cont by (auto simp: bindr_eq_Inr_iff split: option.splits prod.splits)
  ultimately have "client_inv_at CStart p2" using cli.inv_connect by blast
  then have "client_inv_at CStart (p2\<lparr>c_conn := conn\<rparr>)" by (auto simp: client_inv_at_def client_inv_def)
  moreover obtain p3 st p4 p5 p6 where p3: "sqmp_conn_set_user_data conn (Some CLIENT_SESSION) (p2\<lparr>c_conn := conn\<rparr>) = Inr p3"
    and p4: "sqmp_stream_open env conn p3 = Inr (Some st, p4)"
    and p5: "sqmp_stream_set_user_data st (Some CLIENT_SESSION) (p4\<lparr>c_stream := st\<rparr>) = Inr p5"
    and p6: "send_pkt env (Some st) hello_pkt p5 = Inr p6" and p: "p = client_goto CWaitLogin p6"
    using rest by (auto simp: client_hello_def bindr_eq_Inr_iff split: option.splits prod.splits)
  ultimately have "client_inv_at CStart p4" using cli.inv_user_data(1) [OF p3] cli.inv_stream_open [OF p4] by blast
  then have "client_inv_at CStart (p4\<lparr>c_stream := st\<rparr>)" by (auto simp: client_inv_at_def client_inv_def)
  then have "client_inv_at CStart p5" using cli.inv_user_data(2) [OF p5] by blast
  then have "client_inv_at CStart p6"
    using client_inv_at_frame client_frame_same_app [OF same_app_send_pkt [OF p6]] by blast
  then obtain v where "sessions p6 CLIENT_SESSION = Some v" "client_session_inv v" "\<not> g_readline_active p6"
    unfolding client_inv_at_def client_inv_def by auto
  then show ?thesis using p by (auto intro: client_inv_free simp: free_pc_def)
qed

lemma client_reach_inv: "client_reach env cr p \<Longrightarrow> crypto_laws cr \<Longrightarrow> client_inv p"
proof (induction rule: client_reach.induct)
  case (start args evs p0 p)
  then show ?case using client_boot_inv by blast
next
  case (step p p')
  then have inv: "client_inv p" by simp
  from step.hyps(2) show ?case
  proof cases
    case (main inp)
    then show ?thesis using client_main_inv inv step.prems by blast
  next
    case signal
    then show ?thesis using client_inv_frame [OF inv client_frame_interrupt [OF client_frame_refl]] by simp
  next
    case (conn_event c ev)
    then show ?thesis using cli.inv_conn_cb [OF conn_event, of "client_pc p"] inv by (auto simp: client_inv_at_def)
  next
    case (stream_event st ev)
    then show ?thesis using cli.inv_stream_cb [OF stream_event, of "client_pc p"] inv by (auto simp: client_inv_at_def)
  qed
qed

text \<open>C5: the client asks and talks only when it may. In every state that \<^verbatim>\<open>main\<close> can reach, whatever
  MsQuic delivers and whenever signals arrive, its session exists with its arrays at their declared
  lengths; the password prompt is shown only after the server's \<^verbatim>\<open>HELLO_ACK\<close>; the message prompt,
  readline and \<^verbatim>\<open>send_chat\<close> run only when the server has accepted the login, which no later
  packet revokes; and \<^verbatim>\<open>g_readline_active\<close> is set exactly while readline runs.\<close>

theorem client_reachable_invariant:
  assumes "client_reach env cr p" and "crypto_laws cr"
  shows "\<exists>v. sessions p CLIENT_SESSION = Some v \<and> wf_session v
    \<and> (client_pc p = CLogin \<longrightarrow> s_state v \<noteq> SQMP_SESSION_STATE_HELLO)
    \<and> (client_pc p = CPrompt \<or> client_pc p = CReadline \<or> (\<exists>r m. client_pc p = CWaitKey r m)
        \<longrightarrow> s_state v = SQMP_SESSION_STATE_CONN_ESTABLISHED \<and> s_auth_ok v)
    \<and> (g_readline_active p \<longleftrightarrow> client_pc p = CReadline)"
  using client_reach_inv [OF assms] by (auto simp: client_inv_def client_session_inv_def)

definition client_fresh :: client_state where
  "client_fresh = client_demo\<lparr>qs_ctxs := Map.empty, qs_conns := Map.empty, qs_streams := Map.empty, qs_allocs := 0,
     sessions := Map.empty\<rparr>"

lemma client_boot_demo:
  "\<exists>p. client_boot env_ok demo_crypto [[104]] [CONNECTED] client_fresh = Inr (Some (None, p)) \<and> client_pc p = CWaitLogin"
  by (simp add: client_boot_def client_hello_def client_fresh_def sqmp_quic_init_def alloc_def api_call_def api_open_def Let_def
      sqmp_quic_connect_def connect_wait_def sem_wait_conn.simps conn_cb_def conn_chain_def call_opt_def
      client_config_def client_on_connected_def upd_conn_def sqmp_conn_set_user_data_def sqmp_stream_open_def
      sqmp_stream_set_user_data_def send_pkt_def sqmp_stream_send_def stream_chain_def rdn_all)

theorem client_reachable_invariant_witness:
  "\<exists>p v. client_reach env_ok demo_crypto p \<and> client_pc p = CWaitLogin
     \<and> sessions p CLIENT_SESSION = Some v \<and> wf_session v"
proof -
  obtain p where p: "client_reach env_ok demo_crypto p" "client_pc p = CWaitLogin"
    using client_boot_demo client_reach.start by blast
  then show ?thesis using client_reachable_invariant [OF p(1) demo_crypto_laws] by blast
qed

end
