(* ===== verification/Spec2Isabelle.thy ===== *)
theory Spec2Isabelle
  imports Sqmp_Server Sqmp_Client_Inv
begin

text \<open>
  \<^bold>\<open>Verification of squimpchat\<close>

  squimpchat is a chat service over QUIC: clients log in at a server with a name and a password,
  and exchange end-to-end encrypted messages that the server relays. This development models its
  C code and proves what the parts do, alone and together. Sources are named as in the README:
  \<^verbatim>\<open>shared/sqmp.c\<close>, \<^verbatim>\<open>shared/msquic_wrapper.c\<close>, \<^verbatim>\<open>server/server.c\<close> and \<^verbatim>\<open>client/client.c\<close> under
  \<^verbatim>\<open>src/\<close>, the headers under \<^verbatim>\<open>include/\<close>, and \<^verbatim>\<open>data/sqmp_add_user.c\<close>.

  \<^bold>\<open>The program.\<close> \<^verbatim>\<open>shared/msquic_wrapper.c\<close> wraps the MsQuic library: contexts, connections and
  streams are heap objects that point up (\<^verbatim>\<open>stream->conn->ctx\<close>), MsQuic's events arrive in
  \<^verbatim>\<open>stream_cb\<close>, \<^verbatim>\<open>conn_cb\<close> and \<^verbatim>\<open>listener_cb\<close>, and are passed on to the application's callbacks.
  \<^verbatim>\<open>shared/sqmp.c\<close> holds the protocol: the packet handlers, the registry of online users and the
  queue of sessions that wait for authentication. \<^verbatim>\<open>server/server.c\<close> supplies the server's callbacks
  and its main thread, which takes sessions from the queue, checks them against \<^verbatim>\<open>data/users.txt\<close> and
  answers; \<^verbatim>\<open>data/sqmp_add_user.c\<close> writes that file. \<^verbatim>\<open>client/client.c\<close> supplies the client's
  callbacks, the encryption, and a main thread that logs in and sends what the user types; callbacks
  wake it through semaphores in the session.

  \<^bold>\<open>The theories\<close>, each after those it uses:

  \<^item> \<open>Sqmp_Prelude\<close>: C integers as words, memory objects as byte lists, the fault monad
    (\<open>fault + 'a\<close>: out-of-bounds access, null and freed pointers), little-endian fields, C strings.
  \<^item> \<open>Sqmp_Wire\<close>: the packed structs of \<^verbatim>\<open>include/sqmp.h\<close>, their byte images, and the reads that the
    handlers make through a struct pointer; the \<open>_reads\<close> lemmas are the round trips.
  \<^item> \<open>Sqmp_Registry\<close>: \<^verbatim>\<open>sqmp_registry_add/remove/find/get_pubkey\<close> on the 64-entry array. The locale
    \<open>user_directory\<close> is the contract (a finite map from names to stream and key), \<open>reg\<close> its
    interpretation on the code's operations.
  \<^item> \<open>Quic_Wrapper\<close>: the wrapper. MsQuic and \<^verbatim>\<open>malloc\<close> are the parameter \<open>env\<close>, whose answers may
    depend on the number of the call; calls are recorded in order in \<open>qs_calls\<close>. The locale
    \<open>quic_application\<close> says what an application's callbacks must keep for an invariant to survive
    every MsQuic event and every blocking call.
  \<^item> \<open>Sqmp_Session\<close>: the session object and the state of a process that links \<^verbatim>\<open>sqmp.c\<close>.
  \<^item> \<open>Sqmp_Auth_Queue\<close>: the linked queue; it refines a list of addresses (\<open>queue_inv\<close>).
  \<^item> \<open>Sqmp_Protocol\<close>: the handlers of \<^verbatim>\<open>sqmp.c\<close>, for both sides, and the shutdown loops.
  \<^item> \<open>Sqmp_Users\<close>: \<^verbatim>\<open>verify_credentials\<close> and \<^verbatim>\<open>data/sqmp_add_user.c\<close> over the bytes of the users file.
  \<^item> \<open>Sqmp_Server\<close>: \<^verbatim>\<open>server.c\<close>: callbacks, the main thread cut into steps between which callbacks run,
    start-up, and the server as a transition system; \<open>srv\<close> interprets \<open>quic_application\<close>.
  \<^item> \<open>Sqmp_Crypto\<close>: \<^verbatim>\<open>encrypt_chat\<close> and \<^verbatim>\<open>decrypt_chat\<close>; OpenSSL is the parameter \<open>crypto\<close>.
  \<^item> \<open>Sqmp_Client\<close>: \<^verbatim>\<open>client.c\<close>: callbacks, signals, login, sending, the main thread cut at its blocking
    calls, start-up, and the client as a transition system. \<open>Sqmp_Client_Chat\<close> has its behaviour,
    \<open>Sqmp_Client_Inv\<close> its invariant, with \<open>cli\<close> the interpretation of \<open>quic_application\<close>.
  \<^item> This theory composes client and server: a message and a login from one end to the other.

  \<^bold>\<open>Correspondence.\<close> A definition has the name of the C function or type it models, with a prefix
  \<open>server_\<close> or \<open>client_\<close> where both programs have one of that name; a loop or a block of a longer
  function that is a definition of its own says so. A pointer is an \<open>addr option\<close> into a heap of
  the state (\<open>qs_streams\<close>, \<open>sessions\<close>, ...); freeing removes the entry and addresses are not used
  again, so that a later access is the value \<open>UseAfterFree\<close>. A semaphore is a counter, a blocking
  call that does not return is \<open>None\<close>. An operation that completes gives \<open>Inr\<close>; a theorem that
  says so also says that no access leaves its buffer. A C struct of arrays carries their lengths in
  \<open>wf_session\<close>, \<open>wf_registry\<close> and the \<open>wf_\<close> predicates of the packets.

  \<^bold>\<open>What the lemmas show.\<close> Per component: refinement (registry, queue), the reply to each message on
  each branch, round trips (struct fields, users file, encryption), invariants of every reachable
  state of server and client, the life cycles of send buffers, contexts and sessions, and the exact
  conditions under which a handler stays inside its buffers. Where the code goes wrong the theorem
  says how: unchecked lengths in \<^verbatim>\<open>AUTH_REQ\<close> and \<^verbatim>\<open>CHAT_SEND\<close>, a name that is changed between check
  and registration, a repeated \<^verbatim>\<open>AUTH_REQ\<close> that stops the server, a signal that is lost before a wait,
  a session freed while the main thread uses it, a stream that stays registered after it is freed, packets lost when two share a buffer, a late key response used for another
  user, a login failure that leaves the client waiting.

  \<^bold>\<open>Bounds and fuel.\<close> Every loop of the code is a total recursive function (measures: remaining
  entries, remaining bytes of the file, remaining events). \<open>main_run env k\<close> runs \<open>k\<close> steps of the
  server's main thread; 9 are a whole successful authentication (test \<^verbatim>\<open>g_stop\<close>, dequeue, clear the
  queued flag, check for disconnection, copy the name, verify, add to the registry, establish the
  session, answer), 8 a refused one (\<open>auth_steps\<close>). \<open>client_run\<close> runs a list of events. The atomic
  steps of the server's main thread end at its loads and stores of shared fields and its library
  calls; a signal can come between the test of \<^verbatim>\<open>g_stop\<close> and \<^verbatim>\<open>sem_wait\<close> or during the wait; a
  callback is one step. Lengths that the code casts to \<^verbatim>\<open>int\<close> or \<^verbatim>\<open>uint32_t\<close> are cast in the model, and
  the theorems about encryption ask for messages of less than 2 GB. \<open>healthy env\<close> means that memory and MsQuic accept everything; theorems
  without it hold for every answer.

  \<^bold>\<open>Not modelled.\<close> The bodies of MsQuic, OpenSSL and readline (parameters), terminal modes and
  redisplay, \<^verbatim>\<open>stderr\<close> logging and the debug build's \<^verbatim>\<open>[sent]\<close> lines, \<^verbatim>\<open>include/msquic.h\<close> and
  the other vendored headers beyond the constants and events used, the interleaving of two
  callbacks (each is atomic, as if MsQuic ran them on one thread) and of a callback with the inside
  of a client step or of one of these server steps: the reads of \<^verbatim>\<open>verify_credentials\<close>, a registry operation under
  its mutex, and the stores that establish a session.
\<close>

section \<open>A message, end to end\<close>

lemma server_recv_type:
  assumes "12 \<le> n" and "sqmp_stream_get_user_data st p = Inr s"
  shows "server_on_stream_recv env st (enc_pkt (make_pkt SQMP_MSG_TYPE_KEY_REQ sid) @ d) n p
      = sqmp_process_key_req env st s (enc_pkt (make_pkt SQMP_MSG_TYPE_KEY_REQ sid) @ d) p"
    and "server_on_stream_recv env st (enc_pkt (make_pkt SQMP_MSG_TYPE_CHAT_SEND sid) @ d) n p
      = sqmp_process_chat_send env st s (enc_pkt (make_pkt SQMP_MSG_TYPE_CHAT_SEND sid) @ d) p"
    and "server_on_stream_recv env st (enc_pkt (make_pkt SQMP_MSG_TYPE_AUTH_REQ sid) @ d) n p
      = sqmp_process_auth_req env st s (enc_pkt (make_pkt SQMP_MSG_TYPE_AUTH_REQ sid) @ d) p"
  using assms by (simp_all add: server_on_stream_recv_def pkt_reads)

text \<open>A server process with an established session at \<open>a\<close> on stream \<open>st\<close>.\<close>

definition serving :: "'a sqmp_state_scheme \<Rightarrow> addr \<Rightarrow> addr \<Rightarrow> sqmp_session \<Rightarrow> bool" where
  "serving s st a w \<longleftrightarrow> server_inv s \<and> live_stream s st \<and> sqmp_stream_get_user_data st s = Inr (Some a)
     \<and> sessions s a = Some w \<and> s_state w = SQMP_SESSION_STATE_CONN_ESTABLISHED"

lemma serving_after_send:
  "serving s st a w \<Longrightarrow> serving (after_send t buf (s\<lparr>qs_allocs := n\<rparr>)) st a w"
  by (simp add: serving_def server_inv_def live_stream_iff)
     (simp add: after_send_def sqmp_stream_get_user_data_def)

lemma unat_chat_name: "length name \<le> 32 \<Longrightarrow> take (unat (of_nat (length name) :: u8)) (name @ zeros k) = name"
  by (simp add: unat_of_nat)

lemma serve_key_req:
  assumes "healthy env" and "serving s st a w" and "length r \<le> 32" and "registry_map (g_registry s) r = Some (t, key)"
  shows "server_on_stream_recv env st (key_req_pkt sid r @ [0]) (length (key_req_pkt sid r)) s
    = Inr (after_send st (key_resp_pkt sid r key) (s\<lparr>qs_allocs := Suc (qs_allocs s)\<rparr>))"
proof -
  let ?m = "\<lparr>key_req_username_len = of_nat (length r), key_req_username = r @ zeros (32 - length r)\<rparr>"
  have "wf_key_req ?m" using assms(3) by (simp add: wf_key_req_def)
  then show ?thesis
    using assms key_req_found [of env s st a w "make_pkt SQMP_MSG_TYPE_KEY_REQ sid" ?m t key "[0]"] unat_chat_name [OF assms(3)]
    by (simp add: serving_def server_inv_def key_req_pkt_def server_recv_type unat_small_length)
qed

lemma serve_chat_send:
  assumes "healthy env" and "serving s st a w" and "length r \<le> 32" and "registry_map (g_registry s) r = Some (Some t, key)"
    and "live_stream s t" and "length eph = 32" and "length nonce = 12" and "length ct < 2 ^ 32 - 319"
  shows "server_on_stream_recv env st (chat_send_pkt sid r eph nonce ct @ [0]) (length (chat_send_pkt sid r eph nonce ct)) s
    = Inr (after_send t (chat_deliver_pkt sid (s_name w) (chat_msg r eph nonce ct)) (s\<lparr>qs_allocs := Suc (qs_allocs s)\<rparr>))"
proof -
  let ?m = "chat_msg r eph nonce ct"
  have "wf_chat ?m" using assms(3,6,7) by (simp add: wf_chat_msg)
  moreover have "unat (of_nat (length ct) :: u32) = length ct" using assms(8) by (simp add: unat_of_nat)
  moreover have "wf_session w" using assms(2) server_inv_session by (auto simp: serving_def)
  ultimately show ?thesis
    using assms chat_relayed [of env s t a w "make_pkt SQMP_MSG_TYPE_CHAT_SEND sid" ?m key st "[0]"] unat_chat_name [OF assms(3)]
    by (simp add: serving_def server_inv_def chat_send_pkt_def server_recv_type unat_small_length)
qed

lemma run_chat_deliver:
  assumes "healthy env" and "client_at p pc v" and "s_state v = SQMP_SESSION_STATE_CONN_ESTABLISHED"
    and "length sender \<le> 32" and "length eph = 32" and "length nonce = 12" and "16 \<le> length ct"
    and "length ct < 2 ^ 32 - 319" and "decrypt_chat cr (s_client_privkey v) eph nonce ct = Some msg"
  shows "\<exists>p'. client_run env cr [Recv (c_stream p) (chat_deliver_pkt sid sender (chat_msg r eph nonce ct))] p = Some (Inr p')
    \<and> console p' = console p @ [ascii ''[from: '' @ cstr sender @ ascii ''] '', cstr msg]"
proof -
  let ?p0 = "p\<lparr>qs_allocs := Suc (qs_allocs p)\<rparr>" and ?d = "chat_deliver_pkt sid sender (chat_msg r eph nonce ct)"
  have at: "live_stream p (c_stream p)" "sessions p CLIENT_SESSION = Some v"
    "sqmp_stream_get_user_data (c_stream p) p = Inr (Some CLIENT_SESSION)"
    using assms(2) by (simp_all add: client_at_def)
  have "12 \<le> length ?d" "length ?d < 2 ^ 32"
    using assms(4-6,8) by (simp_all add: chat_deliver_pkt_def enc_chat_def)
  then show ?thesis
    using client_recv_event [OF assms(1) at(1), of ?d cr] at
      client_recv_chat_deliver [OF assms(1), of "length ?d" "c_stream p" ?p0 CLIENT_SESSION v sender eph nonce ct cr msg sid r "[0]"]
      assms(3-9)
    by (simp add: sqmp_stream_get_user_data_def)
qed

text \<open>C1: a message typed at one client is printed at the other. \<open>A\<close> is logged in and its user types
  the name of a registered user and a message; \<open>B\<close> is that user's client and holds the private key
  whose public key the server registered. The client asks for the key, the server answers, the
  client encrypts and sends, the server relays, and \<open>B\<close> prints the name under which \<open>A\<close>
  authenticated and the message. The packets between are whatever the handlers produce.\<close>

theorem message_reaches_recipient:
  assumes "healthy env" and "crypto_laws cr"
    and A: "client_at pA CPrompt vA" and S: "serving s st a w" and B: "client_at pB pc vB"
    and "0 \<notin> set (r @ m)" and "SPACE \<notin> set r" and "r \<noteq> []" and "m \<noteq> []" and "length r \<le> 32" and "length m + 16 < 2 ^ 31"
    and "registry_map (g_registry s) r = Some (Some t, key)" and "live_stream s t"
    and "x25519_keygen cr k = Some (s_client_privkey vB, key)" and "key \<noteq> zeros 32"
    and "s_state vB = SQMP_SESSION_STATE_CONN_ESTABLISHED"
    and enc: "encrypt_chat cr (rng_calls pA) key m \<noteq> Inr None"
  shows "\<exists>pA1 key_req s1 key_resp pA2 chat_send s2 chat_deliver pB1.
      client_run env cr [Main NoInput, Main (Line (Some (r @ SPACE # m)))] pA = Some (Inr pA1)
    \<and> client_sends pA pA1 [key_req]
    \<and> server_on_stream_recv env st (key_req @ [0]) (length key_req) s = Inr s1
    \<and> sent_packets s1 = sent_packets s @ [(handle_of s st, key_resp)]
    \<and> client_run env cr [Recv (c_stream pA) key_resp, Main NoInput] pA1 = Some (Inr pA2)
    \<and> client_sends pA1 pA2 [chat_send]
    \<and> server_on_stream_recv env st (chat_send @ [0]) (length chat_send) s1 = Inr s2
    \<and> sent_packets s2 = sent_packets s1 @ [(handle_of s t, chat_deliver)]
    \<and> client_run env cr [Recv (c_stream pB) chat_deliver] pB = Some (Inr pB1)
    \<and> console pB1 = console pB @ [ascii ''[from: '' @ cstr (s_name w) @ ascii ''] '', m]
    \<and> client_pc pA2 = CPrompt"
proof -
  have key: "length key = 32" using crypto_lawsD(2) [OF assms(2,14)] .
  have sized: "int_sized m" using assms(11) by (simp add: int_sized_def)
  obtain eph nonce ct where e: "encrypt_chat cr (rng_calls pA) key m = Inr (Some (eph, nonce, ct))"
    using enc encrypt_chat_total [OF assms(2) sized] by (cases "encrypt_chat cr (rng_calls pA) key m") auto
  note len = encrypt_chat_lengths [OF assms(2) sized e]
  obtain p1 where p1: "client_run env cr [Main NoInput, Main (Line (Some (r @ SPACE # m)))] pA = Some (Inr p1)"
    "client_at p1 (CWaitKey r m) vA" "client_sends pA p1 [key_req_pkt (s_session_id vA) r]" "rng_calls p1 = rng_calls pA"
    using run_line [OF assms(1) A assms(6-10)] by blast
  let ?resp = "key_resp_pkt (s_session_id vA) r key"
  let ?v = "vA\<lparr>s_key_fetch_result := key, s_key_fetch_sem := Suc (s_key_fetch_sem vA)\<rparr>"
  obtain p2 where p2: "client_run env cr [Recv (c_stream p1) ?resp] p1 = Some (Inr p2)" "client_at p2 (CWaitKey r m) ?v"
    "client_sends p1 p2 []" "rng_calls p2 = rng_calls p1"
    using run_key_resp [OF assms(1) p1(2) assms(10) key] by blast
  let ?snd = "chat_send_pkt (s_session_id vA) r eph nonce ct"
  obtain p3 where p3: "client_run env cr [Main NoInput] p2 = Some (Inr p3)" "client_sends p2 p3 [?snd]" "client_pc p3 = CPrompt"
    using run_encrypt [OF assms(1,2) p2(2) _ _ assms(10,11), of _ eph nonce ct] assms(15) e p1(4) p2(4)
    by (auto simp: client_at_def)
  have st: "c_stream p1 = c_stream pA" using p1(3) by (simp add: client_sends_def)
  have run: "client_run env cr [Recv (c_stream pA) ?resp, Main NoInput] p1 = Some (Inr p3)"
    using client_run_ConsI [OF p2(1), of "[Main NoInput]"] p3(1) st by simp
  have sends: "client_sends p1 p3 [?snd]" using client_sends_trans [OF p2(3) p3(2)] by simp
  let ?s1 = "after_send st ?resp (s\<lparr>qs_allocs := Suc (qs_allocs s)\<rparr>)"
  have s1: "server_on_stream_recv env st (key_req_pkt (s_session_id vA) r @ [0]) (length (key_req_pkt (s_session_id vA) r)) s = Inr ?s1"
    by (rule serve_key_req [OF assms(1) S assms(10,12)])
  have S1: "serving ?s1 st a w" by (rule serving_after_send [OF S])
  let ?dlv = "chat_deliver_pkt (s_session_id vA) (s_name w) (chat_msg r eph nonce ct)"
  let ?s2 = "after_send t ?dlv (?s1\<lparr>qs_allocs := Suc (qs_allocs ?s1)\<rparr>)"
  have ctlen: "16 \<le> length ct" "length ct < 2 ^ 32 - 319" using len(3) assms(11) by simp_all
  have s2: "server_on_stream_recv env st (?snd @ [0]) (length ?snd) ?s1 = Inr ?s2"
    using serve_chat_send [OF assms(1) S1 assms(10), of t key eph nonce ct] assms(12,13) len(1,2) ctlen(2) by simp
  have name: "length (s_name w) \<le> 32"
    using S by (auto simp: serving_def server_inv_def wf_session_def s_name_def)
  have "decrypt_chat cr (s_client_privkey vB) eph nonce ct = Some m"
    by (rule decrypt_encrypt_chat [OF assms(2,14) sized e])
  moreover have "cstr m = m" using assms(6) by simp
  ultimately obtain pB1 where pB1: "client_run env cr [Recv (c_stream pB) ?dlv] pB = Some (Inr pB1)"
    "console pB1 = console pB @ [ascii ''[from: '' @ cstr (s_name w) @ ascii ''] '', m]"
    using run_chat_deliver [OF assms(1) B assms(16) name len(1,2) ctlen] by metis
  show ?thesis
    by (intro exI conjI, rule p1(1), rule p1(3), rule s1, simp, rule run, rule sends, rule s2, simp, rule pB1(1), rule pB1(2), rule p3(3))
qed

definition relay_demo :: sqmp_state where
  "relay_demo = (proto_demo SQMP_SESSION_STATE_CONN_ESTABLISHED)\<lparr>g_registry :=
     zero_entry\<lparr>re_in_use := 1, re_username_len := 1, re_username := 97 # zeros 31, re_stream := Some 5,
       re_public_key := replicate 32 1\<rparr> # replicate 63 zero_entry\<rparr>"

lemma relay_demo_serving: "serving relay_demo 3 4 (proto_session SQMP_SESSION_STATE_CONN_ESTABLISHED)"
  "registry_map (g_registry relay_demo) [97] = Some (Some 5, replicate 32 1)" "live_stream relay_demo 5"
proof -
  let ?p = "proto_demo SQMP_SESSION_STATE_CONN_ESTABLISHED"
  have f: "qs_streams relay_demo = qs_streams ?p" "qs_conns relay_demo = qs_conns ?p" "qs_ctxs relay_demo = qs_ctxs ?p"
    "sessions relay_demo = [4 \<mapsto> proto_session SQMP_SESSION_STATE_CONN_ESTABLISHED]"
    by (simp_all add: relay_demo_def) (simp add: proto_demo_def)
  have "wf_registry (g_registry relay_demo)"
    by (simp add: relay_demo_def wf_registry_def wf_entry_def zero_entry_def live_entries_def)
  then have "server_inv relay_demo" using f(4) by (simp add: server_inv_def)
  moreover have "live_stream relay_demo 3" "live_stream relay_demo 5" "sqmp_stream_get_user_data 3 relay_demo = Inr (Some 4)"
    using proto_demo_simps(3,4) by (simp_all add: live_stream_iff f sqmp_stream_get_user_data_def) (simp add: proto_demo_def)
  ultimately show "serving relay_demo 3 4 (proto_session SQMP_SESSION_STATE_CONN_ESTABLISHED)" "live_stream relay_demo 5"
    by (simp_all add: serving_def f)
  show "registry_map (g_registry relay_demo) [97] = Some (Some 5, replicate 32 1)"
    by (simp add: relay_demo_def registry_map_def zero_entry_def live_entries_def re_name_def)
qed

theorem message_reaches_recipient_witness:
  "\<exists>pA1 key_req s1 key_resp pA2 chat_send s2 chat_deliver pB1.
      client_run env_ok demo_crypto [Main NoInput, Main (Line (Some ([97] @ SPACE # [104, 105])))]
        (client_demo\<lparr>client_pc := CPrompt\<rparr>) = Some (Inr pA1)
    \<and> server_on_stream_recv env_ok 3 (key_req @ [0]) (length key_req) relay_demo = Inr s1
    \<and> client_run env_ok demo_crypto [Recv 3 key_resp, Main NoInput] pA1 = Some (Inr pA2)
    \<and> server_on_stream_recv env_ok 3 (chat_send @ [0]) (length chat_send) s1 = Inr s2
    \<and> client_run env_ok demo_crypto [Recv 3 chat_deliver] (client_demo\<lparr>client_pc := CReadline\<rparr>) = Some (Inr pB1)
    \<and> console pB1 = [ascii ''[from: '' @ [98] @ ascii ''] '', [104, 105]]"
proof -
  have k: "x25519_keygen demo_crypto 0 = Some (s_client_privkey client_session, replicate 32 1)"
    by (simp add: demo_crypto_def)
  have c: "console (client_demo\<lparr>client_pc := CReadline\<rparr>) = []" by (simp add: client_demo_def)
  have s: "SPACE \<notin> set [97]" "0 \<notin> set ([97] @ [104, 105 :: u8])" "replicate 32 1 \<noteq> zeros 32"
    "encrypt_chat demo_crypto (rng_calls (client_demo\<lparr>client_pc := CPrompt\<rparr>)) (replicate 32 1) [104, 105] \<noteq> Inr None"
    using demo_encrypts by (simp_all add: SPACE_def zeros_def)
  have n: "cstr (s_name (proto_session SQMP_SESSION_STATE_CONN_ESTABLISHED)) = [98]" by simp
  have t: "[97 :: u8] \<noteq> []" "[104, 105 :: u8] \<noteq> []" "length [97 :: u8] \<le> 32" "length [104, 105 :: u8] + 16 < 2 ^ 31"
    by simp_all
  from message_reaches_recipient [OF healthy_env_ok demo_crypto_laws client_at_demo [of CPrompt] relay_demo_serving(1)
      client_at_demo [of CReadline] s(2,1) t relay_demo_serving(2,3) k s(3) client_session_simps(1) s(4),
      unfolded c n client_demo_pc append_Nil]
  show ?thesis by (elim exE conjE) (intro exI conjI; assumption)
qed

section \<open>A login, end to end\<close>

lemma sqmp_login_short:
  assumes "healthy env" and "crypto_laws cr" and "live_stream p st" and "sessions p CLIENT_SESSION = Some v"
    and "wf_session v" and "x25519_keygen cr (rng_calls p) = Some (priv, pub)"
    and "set (name @ pw) \<inter> {0, NL} = {}" and "name \<noteq> []" and "length pw < 255" and "length name < 32"
  shows "sqmp_login env cr st (name @ NL # pw @ NL # rest) p = Inr (0, rest,
    after_send st (auth_req_pkt (s_session_id v) name (sha256 cr pw) pub)
      (put_session CLIENT_SESSION (logging_in name priv pub v) (p\<lparr>rng_calls := Suc (rng_calls p)\<rparr>)))"
proof -
  have nz: "NL \<notin> set name" "0 \<notin> set name" "NL \<notin> set pw" "0 \<notin> set pw" using assms(7) by auto
  have "fgets 33 (name @ NL # pw @ NL # rest) = Some (name @ [NL], pw @ NL # rest)"
    using fgets_loop_prompt [OF nz(1), of 32] assms(10) by (simp add: fgets_def)
  moreover have "fgets 256 (pw @ NL # rest) = Some (pw @ [NL], rest)"
    using fgets_loop_prompt [OF nz(3), of 255] assms(9) by (simp add: fgets_def)
  ultimately show ?thesis
    using chomp_line [OF nz(1,2)] chomp_line [OF nz(3,4)] assms(8,10)
      login_send_live [OF assms(1-5) less_imp_le_nat [OF assms(10)] assms(6), of pw]
    by (simp add: sqmp_login_def)
qed

lemma run_login:
  assumes "healthy env" and "crypto_laws cr" and "client_at p CLogin v"
    and "x25519_keygen cr (rng_calls p) = Some (priv, pub)"
    and "set (name @ pw) \<inter> {0, NL} = {}" and "name \<noteq> []" and "length pw < 255" and "length name < 32"
  shows "\<exists>p'. client_run env cr [Main (Stdin (name @ NL # pw @ NL # rest))] p = Some (Inr p')
    \<and> client_at p' CWaitAuth (logging_in name priv pub v)
    \<and> client_sends p p' [auth_req_pkt (s_session_id v) name (sha256 cr pw) pub]"
proof -
  have at: "client_pc p = CLogin" "live_stream p (c_stream p)" "sessions p CLIENT_SESSION = Some v" "wf_session v"
    using assms(3) by (simp_all add: client_at_def)
  have "length priv = 32" "length pub = 32" using crypto_lawsD(1,2) [OF assms(2,4)] .
  then have "wf_session (logging_in name priv pub v)"
    using at(4) assms(8) by (simp add: wf_session_def logging_in_def unat_small_length)
  moreover have f: "c_stream (put_session a w q) = c_stream q" "g_interrupted (put_session a w q) = g_interrupted q"
    for a w and q :: client_state by (simp_all add: put_session_def)
  ultimately show ?thesis
    using assms(3) at sqmp_login_short [OF assms(1,2) at(2-4) assms(4-8), of rest]
    by (simp add: client_at_def client_sends_def live_stream_iff handle_of_def sent_packets_def
        sqmp_stream_get_user_data_def after_send_def List.map_filter_def)
qed

lemma run_auth_resp:
  assumes "healthy env" and "client_at p CWaitAuth v" and "s_state v = SQMP_SESSION_STATE_AUTH" and "s_auth_done v = 0"
  shows "\<exists>p' v'. client_run env cr [Recv (c_stream p) (auth_resp_pkt sid ok), Main NoInput, Main NoInput] p = Some (Inr p')
    \<and> client_pc p' = (if ok then CPrompt else CDisconnect) \<and> sessions p' CLIENT_SESSION = Some v'
    \<and> (ok \<longrightarrow> s_state v' = SQMP_SESSION_STATE_CONN_ESTABLISHED) \<and> s_client_privkey v' = s_client_privkey v"
proof -
  let ?v = "(if ok then v\<lparr>s_state := SQMP_SESSION_STATE_CONN_ESTABLISHED, s_auth_ok := True\<rparr> else v\<lparr>s_auth_ok := False\<rparr>)
      \<lparr>s_auth_done := Suc 0\<rparr>"
  let ?p0 = "p\<lparr>qs_allocs := Suc (qs_allocs p)\<rparr>" and ?d = "auth_resp_pkt sid ok"
  have at: "client_pc p = CWaitAuth" "live_stream p (c_stream p)" "sessions p CLIENT_SESSION = Some v" "\<not> g_interrupted p"
    "sqmp_stream_get_user_data (c_stream p) p = Inr (Some CLIENT_SESSION)"
    using assms(2) by (simp_all add: client_at_def)
  have len: "12 \<le> length ?d" "length ?d < 2 ^ 32" by (simp_all add: auth_resp_pkt_def enc_auth_resp_def)
  have "client_on_stream_recv env cr (c_stream p) (?d @ [0]) (length ?d) ?p0 = Inr (put_session CLIENT_SESSION ?v ?p0)"
    using at len assms(3,4)
    by (simp add: auth_resp_pkt_def client_recv_type sqmp_process_auth_resp_def auth_resp_reads sqmp_stream_get_user_data_def)
  then have step: "client_event_step env cr (Recv (c_stream p) ?d) p = Some (Inr (put_session CLIENT_SESSION ?v ?p0))"
    using client_recv_event [OF assms(1) at(2) len(2), of cr] by simp
  let ?q = "put_session CLIENT_SESSION ?v ?p0"
  let ?w = "s_auth_done_update (\<lambda>n. n - 1) ?v"
  let ?q2 = "client_goto CAuthChecked (put_session CLIENT_SESSION ?w ?q)"
  have "client_main env cr (client_pc ?q) NoInput ?q = Some (Inr ?q2)" using at by (simp add: dec_sem_def)
  moreover have "client_main env cr (client_pc ?q2) NoInput ?q2 = Some (Inr (client_goto (if ok then CPrompt else CDisconnect) ?q2))"
    using at by simp
  ultimately have "client_run env cr [Recv (c_stream p) ?d, Main NoInput, Main NoInput] p
      = Some (Inr (client_goto (if ok then CPrompt else CDisconnect) ?q2))"
    using step by simp
  then show ?thesis by simp
qed

lemma serve_auth_req:
  fixes s :: server_state
  assumes "server_inv s" and "sqmp_stream_get_user_data st s = Inr (Some a)"
    and "sessions s a = Some w" and "s_state w = SQMP_SESSION_STATE_AUTH" and "queue_inv s []"
    and "length name \<le> 32" and "length hash = 32" and "length key = 32"
  shows "\<exists>s1 w'. server_on_stream_recv env st (auth_req_pkt sid name hash key @ [0]) (length (auth_req_pkt sid name hash key)) s = Inr s1
    \<and> queue_inv s1 [a] \<and> server_inv s1 \<and> sessions s1 a = Some w' \<and> s_auth_name w' = name \<and> s_auth_password_hash w' = hash
    \<and> s_auth_pubkey w' = key \<and> s_auth_stream w' = Some st \<and> s_conn_closed w' = s_conn_closed w \<and> s_session_id w' = s_session_id w
    \<and> s_state w' = SQMP_SESSION_STATE_AUTH \<and> server_pc s1 = server_pc s \<and> g_stop s1 = g_stop s \<and> users_file s1 = users_file s
    \<and> g_registry s1 = g_registry s \<and> qs_calls s1 = qs_calls s \<and> qs_streams s1 = qs_streams s \<and> qs_conns s1 = qs_conns s
    \<and> qs_ctxs s1 = qs_ctxs s"
proof -
  let ?m = "\<lparr>auth_req_username_len = of_nat (length name), auth_req_username = name @ zeros (32 - length name),
          auth_req_password_hash = hash, auth_req_pubkey_len = 32, auth_req_public_key = key\<rparr>"
  have wf: "wf_session w" using server_inv_session [OF assms(1,3)] .
  have good: "good_auth_req ?m" "auth_req_name ?m = name"
    using assms(6-8) by (simp_all add: good_auth_req_def wf_auth_req_def unat_small_length auth_req_name_def)
  obtain s1 n where s1: "sqmp_process_auth_req env st (Some a) (enc_pkt (make_pkt SQMP_MSG_TYPE_AUTH_REQ sid) @ enc_auth_req ?m @ [0]) s = Inr s1"
    "queue_inv s1 ([] @ [a])" "queue_frame (put_session a (stored_auth st ?m w) s) s1"
    "sessions s1 a = Some (stored_auth st ?m w\<lparr>s_next := n\<rparr>)"
    using auth_req_queued [OF assms(3) wf wf_make_pkt good(1) assms(4,5)] by (metis empty_iff list.set(1))
  have recv: "server_on_stream_recv env st (auth_req_pkt sid name hash key @ [0]) (length (auth_req_pkt sid name hash key)) s = Inr s1"
    using s1(1) assms(2) by (simp add: auth_req_pkt_def server_recv_type)
  have name: "s_auth_name (stored_auth st ?m w\<lparr>s_next := n\<rparr>) = name"
    using stored_auth_simps(2) [OF wf good(1), of st] good(2) by (simp add: s_auth_name_def)
  have "server_pc s1 = server_pc s" "g_stop s1 = g_stop s" "users_file s1 = users_file s"
    using queue_frame_server [OF s1(3)] by (simp_all add: put_session_def)
  then show ?thesis
    using recv s1(2,4) name queue_frame_fields [OF s1(3)] assms(4) server_on_stream_recv_inv [OF recv assms(1)]
    by (intro exI [of _ s1] exI [of _ "stored_auth st ?m w\<lparr>s_next := n\<rparr>"]) (simp add: stored_auth_def Let_def)
qed

text \<open>C2: a login, end to end. The user types a name of at most 31 bytes and a password at the
  client; its session and the server's are in state AUTH, and the server is idle. The client's
  request is queued by the server's callback, nine steps of its main thread (eight for a refusal) check and answer it, and
  the client goes to its message prompt exactly when the password's SHA-256 is the one in the users
  file, the name is not registered and the registry has room; otherwise it disconnects. After a
  successful login both sides are established, and the registry holds the user's stream and the
  public key whose private key the client keeps.\<close>

theorem login_end_to_end:
  fixes s :: server_state
  assumes "healthy env" and "crypto_laws cr" and C: "client_at p CLogin v" and "s_state v = SQMP_SESSION_STATE_AUTH"
    and "s_auth_done v = 0" and "x25519_keygen cr (rng_calls p) = Some (priv, pub)"
    and "set (name @ pw) \<inter> {0, NL} = {}" and "name \<noteq> []" and "length pw < 255" and "length name < 32"
    and "server_inv s" and "server_pc s = MainLoop" and "\<not> g_stop s" and "queue_inv s []" and "live_stream s st"
    and "sqmp_stream_get_user_data st s = Inr (Some a)" and "sessions s a = Some w"
    and "s_state w = SQMP_SESSION_STATE_AUTH" and "\<not> s_conn_closed w"
    and "verify_credentials (users_file s) name (sha256 cr pw) = Inr ok"
  defines "accepted \<equiv> ok \<and> registry_map (g_registry s) name = None \<and> \<not> registry_full (g_registry s)"
  shows "\<exists>p1 auth_req s1 s2 auth_resp p2 v2 w2.
      client_run env cr [Main (Stdin (name @ NL # pw @ NL # rest))] p = Some (Inr p1)
    \<and> client_sends p p1 [auth_req]
    \<and> server_on_stream_recv env st (auth_req @ [0]) (length auth_req) s = Inr s1
    \<and> main_run env (auth_steps accepted) s1 = Some (Inr s2)
    \<and> sent_packets s2 = sent_packets s @ [(handle_of s st, auth_resp)]
    \<and> client_run env cr [Recv (c_stream p) auth_resp, Main NoInput, Main NoInput] p1 = Some (Inr p2)
    \<and> client_pc p2 = (if accepted then CPrompt else CDisconnect)
    \<and> sessions p2 CLIENT_SESSION = Some v2 \<and> sessions s2 a = Some w2
    \<and> (if accepted then s_state v2 = SQMP_SESSION_STATE_CONN_ESTABLISHED \<and> s_state w2 = SQMP_SESSION_STATE_CONN_ESTABLISHED
         \<and> s_client_privkey v2 = priv \<and> s_name w2 = name
         \<and> registry_map (g_registry s2) = (registry_map (g_registry s))(name \<mapsto> (Some st, pub))
       else g_registry s2 = g_registry s)"
proof -
  obtain p1 where p1: "client_run env cr [Main (Stdin (name @ NL # pw @ NL # rest))] p = Some (Inr p1)"
    "client_at p1 CWaitAuth (logging_in name priv pub v)"
    "client_sends p p1 [auth_req_pkt (s_session_id v) name (sha256 cr pw) pub]"
    using run_login [OF assms(1-3,6-10)] by blast
  let ?rq = "auth_req_pkt (s_session_id v) name (sha256 cr pw) pub"
  have len: "length (sha256 cr pw) = 32" "length pub = 32"
    using crypto_lawsD(5) [OF assms(2)] crypto_lawsD(2) [OF assms(2,6)] by simp_all
  obtain s1 w' where s1: "server_on_stream_recv env st (?rq @ [0]) (length ?rq) s = Inr s1" "queue_inv s1 [a]" "server_inv s1"
    "sessions s1 a = Some w'" "s_auth_name w' = name" "s_auth_password_hash w' = sha256 cr pw" "s_auth_pubkey w' = pub"
    "s_auth_stream w' = Some st" "s_conn_closed w' = s_conn_closed w"
    "server_pc s1 = server_pc s" "g_stop s1 = g_stop s" "users_file s1 = users_file s" "g_registry s1 = g_registry s"
    "qs_calls s1 = qs_calls s" "qs_streams s1 = qs_streams s" "qs_conns s1 = qs_conns s" "qs_ctxs s1 = qs_ctxs s"
    using serve_auth_req [OF assms(11,16-18,14) less_imp_le_nat [OF assms(10)] len, of env "s_session_id v"] by blast
  have live: "live_stream s1 st" and frame: "handle_of s1 st = handle_of s st" "sent_packets s1 = sent_packets s"
    using assms(15) s1(14-17) by (simp_all add: live_stream_iff handle_of_def sent_packets_def)
  obtain q where q: "sqmp_auth_queue_dequeue False s1 = Some (Inr (Some a, q))" "queue_frame s1 q"
    using dequeue_spec [OF s1(2)] by blast
  have pre: "server_pc s1 = MainLoop" "\<not> g_stop s1" "\<not> s_conn_closed w'"
    "verify_credentials (users_file s1) (s_auth_name w') (s_auth_password_hash w') = Inr ok"
    using assms(12,13,19,20) s1 by simp_all
  have acc: "(ok \<and> registry_map (g_registry s1) (s_auth_name w') = None \<and> \<not> registry_full (g_registry s1)) = accepted"
    using s1 by (simp add: accepted_def)
  let ?resp = "auth_resp_pkt (s_session_id w') accepted"
  obtain s2 w2 where s2: "main_run env (auth_steps accepted) s1 = Some (Inr s2)" "sessions s2 a = Some w2"
    "sent_packets s2 = sent_packets s @ [(handle_of s st, ?resp)]"
    and res: "if accepted then registry_map (g_registry s2) = (registry_map (g_registry s))(name \<mapsto> (Some st, pub))
            \<and> s_state w2 = SQMP_SESSION_STATE_CONN_ESTABLISHED \<and> s_name w2 = name
       else g_registry s2 = g_registry s"
    using main_run_auth [OF assms(1) s1(3) pre(1,2) q s1(4) pre(3,4) s1(8) live] unfolding acc
    by (fastforce simp: s1(5,7,13) frame split: if_splits)
  have "s_state (logging_in name priv pub v) = SQMP_SESSION_STATE_AUTH" "s_auth_done (logging_in name priv pub v) = 0"
    "s_client_privkey (logging_in name priv pub v) = priv"
    using assms(4,5) by (simp_all add: logging_in_def)
  then obtain p2 v2 where p2: "client_run env cr [Recv (c_stream p1) ?resp, Main NoInput, Main NoInput] p1 = Some (Inr p2)"
    "client_pc p2 = (if accepted then CPrompt else CDisconnect)" "sessions p2 CLIENT_SESSION = Some v2"
    "accepted \<longrightarrow> s_state v2 = SQMP_SESSION_STATE_CONN_ESTABLISHED" "s_client_privkey v2 = priv"
    using run_auth_resp [OF assms(1) p1(2), where sid = "s_session_id w'" and ok = accepted and cr = cr] by metis
  have st: "c_stream p1 = c_stream p" using p1(3) by (simp add: client_sends_def)
  show ?thesis
    using p1(1,3) s1(1) s2 p2 st res
    by (intro exI [of _ p1] exI [of _ ?rq] exI [of _ s1] exI [of _ s2] exI [of _ ?resp] exI [of _ p2] exI [of _ v2] exI [of _ w2])
      auto
qed

definition login_client :: client_state where
  "login_client = client_demo\<lparr>client_pc := CLogin,
     sessions := [CLIENT_SESSION \<mapsto> client_session\<lparr>s_state := SQMP_SESSION_STATE_AUTH, s_auth_ok := False\<rparr>]\<rparr>"

definition login_server :: server_state where
  "login_server = server_demo\<lparr>sessions := [4 \<mapsto> proto_session SQMP_SESSION_STATE_AUTH],
     g_auth_queue_head := None, g_auth_queue_tail := None, g_auth_queue_sem := 0\<rparr>"

lemma login_client_at:
  "client_at login_client CLogin (client_session\<lparr>s_state := SQMP_SESSION_STATE_AUTH, s_auth_ok := False\<rparr>)"
  "rng_calls login_client = 4" "c_stream login_client = 3"
  using client_at_demo [of CLogin] client_session_simps(5)
  by (simp_all add: login_client_def client_at_def live_stream_iff wf_session_def del: client_session_simps)
     (simp_all add: sqmp_stream_get_user_data_def client_demo_def)

lemma login_server_simps:
  "server_inv login_server" "server_pc login_server = MainLoop" "\<not> g_stop login_server" "queue_inv login_server []"
  "live_stream login_server 3" "sqmp_stream_get_user_data 3 login_server = Inr (Some 4)"
  "sessions login_server 4 = Some (proto_session SQMP_SESSION_STATE_AUTH)" "users_file login_server = Some demo_users"
  "g_registry login_server = g_registry server_demo"
  using server_demo_simps
  by (simp_all add: login_server_def server_inv_def live_stream_iff)
     (simp_all add: server_demo_def server_start_def sqmp_stream_get_user_data_def proto_demo_def)

theorem login_end_to_end_witness:
  "\<exists>p1 auth_req s1 s2 auth_resp p2.
      client_run env_ok demo_crypto [Main (Stdin ([97, 98] @ NL # replicate 32 7 @ NL # []))] login_client = Some (Inr p1)
    \<and> server_on_stream_recv env_ok 3 (auth_req @ [0]) (length auth_req) login_server = Inr s1
    \<and> main_run env_ok 9 s1 = Some (Inr s2)
    \<and> client_run env_ok demo_crypto [Recv 3 auth_resp, Main NoInput, Main NoInput] p1 = Some (Inr p2)
    \<and> client_pc p2 = CPrompt"
proof -
  have k: "x25519_keygen demo_crypto (rng_calls login_client) = Some (replicate 32 5, replicate 32 5)"
    by (simp add: demo_crypto_def login_client_at)
  have h: "sha256 demo_crypto (replicate 32 7) = replicate 32 7" by (simp add: demo_crypto_def)
  have ver: "verify_credentials (users_file login_server) [97, 98] (sha256 demo_crypto (replicate 32 7)) = Inr True"
    using demo_verify [of "replicate 32 7"] by (simp add: login_server_simps h)
  have reg: "registry_map (g_registry login_server) [97, 98] = None" "\<not> registry_full (g_registry login_server)"
    by (simp_all add: login_server_simps registry_map_init not_full_init)
  have c: "s_state (client_session\<lparr>s_state := SQMP_SESSION_STATE_AUTH, s_auth_ok := False\<rparr>) = SQMP_SESSION_STATE_AUTH"
    "s_auth_done (client_session\<lparr>s_state := SQMP_SESSION_STATE_AUTH, s_auth_ok := False\<rparr>) = 0" by simp_all
  have n: "set ([97, 98] @ replicate 32 7) \<inter> {0, NL} = {}" "[97, 98 :: u8] \<noteq> []" "length (replicate 32 (7 :: u8)) < 255"
    "length [97, 98 :: u8] < 32" by (simp_all add: NL_def)
  have w: "s_state (proto_session SQMP_SESSION_STATE_AUTH) = SQMP_SESSION_STATE_AUTH"
    "\<not> s_conn_closed (proto_session SQMP_SESSION_STATE_AUTH)" by (simp_all add: proto_session_def new_session_def)
  from login_end_to_end [OF healthy_env_ok demo_crypto_laws login_client_at(1) c k n login_server_simps(1-7) w ver, of "[]"]
  show ?thesis
    unfolding login_client_at(3) using reg by (elim exE conjE) (intro exI conjI; (assumption | simp add: auth_steps_def))
qed

end
